(* ===== verification/Marcel_Prelude.thy ===== *)
theory Marcel_Prelude
  imports Main
begin

text \<open>
  The vocabulary every component of the development shares: Python exceptions as values,
  effects as state transformers that either return or raise, the relations an effect
  obeys (as a locale, so that each component proves its frame facts once), and generic
  lemmas on lists used as database tables.
\<close>

subsection \<open>Exceptions\<close>

text \<open>
  One constructor per exception the code raises itself or lets through from the standard
  library and the libraries it calls.  The argument is the message (for an HTTP error, the
  status code and the detail; for an exception of an intercepted tool, its type and text).
  \<open>OutsideModel\<close> is not an exception: it marks a result that the model's alphabet of 256
  code points cannot represent.
\<close>

datatype py_exn =
    ValueError string
  | TypeError string
  | AttributeError string
  | InvalidOperation
  | GovernanceError string
  | AuditIntegrityError string
  | ExecutionDeniedError string
  | ApprovalRejectedError string
  | ApprovalTimeoutError string
  | IntegrityError
  | DataError
  | PendingRollbackError
  | MultipleResultsFound
  | RedisResponseError
  | ValidationError string
  | InvalidTokenError
  | HTTPException int string
  | ToolError string string
  | OutsideModel

type_synonym 'a result = "py_exn + 'a"

definition bindR :: "'a result \<Rightarrow> ('a \<Rightarrow> 'b result) \<Rightarrow> 'b result" where
  "bindR m f = (case m of Inl e \<Rightarrow> Inl e | Inr x \<Rightarrow> f x)"

lemma bindR_simps [simp]:
  "bindR (Inl e) f = Inl e"
  "bindR (Inr x) f = f x"
  by (simp_all add: bindR_def)

lemma bindR_eq_Inr: "bindR m f = Inr y \<longleftrightarrow> (\<exists>x. m = Inr x \<and> f x = Inr y)"
  by (cases m) auto

text \<open>The conjunction of checks that Python evaluates left to right, each of which may raise.\<close>

fun all_checks :: "bool result list \<Rightarrow> bool result" where
  "all_checks [] = Inr True"
| "all_checks (c # cs) = bindR c (\<lambda>b. if b then all_checks cs else Inr False)"

lemma all_checks_True:
  "all_checks cs = Inr True \<longleftrightarrow> (\<forall>c \<in> set cs. c = Inr True)"
  by (induction cs) (auto simp: bindR_eq_Inr)

lemma all_checks_append:
  "all_checks (cs @ ds) = bindR (all_checks cs) (\<lambda>b. if b then all_checks ds else Inr False)"
proof (induction cs)
  case Nil
  then show ?case by simp
next
  case (Cons c cs)
  then show ?case by (cases c) auto
qed

subsection \<open>Effects\<close>

text \<open>
  An effect takes the state and gives a result together with the new state.  The state is
  kept when an exception is raised: what a Python function did before raising stays done,
  unless a transaction undoes it.
\<close>

type_synonym ('s, 'a) eff = "'s \<Rightarrow> 'a result \<times> 's"

definition ret :: "'a \<Rightarrow> ('s, 'a) eff" where
  "ret x s = (Inr x, s)"

definition raise :: "py_exn \<Rightarrow> ('s, 'a) eff" where
  "raise e s = (Inl e, s)"

definition bindE :: "('s, 'a) eff \<Rightarrow> ('a \<Rightarrow> ('s, 'b) eff) \<Rightarrow> ('s, 'b) eff" where
  "bindE m f s = (case m s of (Inl e, s') \<Rightarrow> (Inl e, s') | (Inr x, s') \<Rightarrow> f x s')"

definition get_s :: "('s \<Rightarrow> 'a) \<Rightarrow> ('s, 'a) eff" where
  "get_s f s = (Inr (f s), s)"

definition modify_s :: "('s \<Rightarrow> 's) \<Rightarrow> ('s, unit) eff" where
  "modify_s f s = (Inr (), f s)"

definition lift_result :: "'a result \<Rightarrow> ('s, 'a) eff" where
  "lift_result r s = (r, s)"

text \<open>\<open>try: m  except e: h e\<close>; the handler re-raises what it does not treat.\<close>

definition catchE :: "('s, 'a) eff \<Rightarrow> (py_exn \<Rightarrow> ('s, 'a) eff) \<Rightarrow> ('s, 'a) eff" where
  "catchE m h s = (case m s of (Inl e, s') \<Rightarrow> h e s' | (Inr x, s') \<Rightarrow> (Inr x, s'))"

text \<open>\<open>try: m  finally: f\<close>; what \<open>f\<close> raises replaces the outcome of \<open>m\<close>.\<close>

definition finallyE :: "('s, 'a) eff \<Rightarrow> ('s, unit) eff \<Rightarrow> ('s, 'a) eff" where
  "finallyE m f s = (case m s of (r, s') \<Rightarrow> (case f s' of (Inl e, s'') \<Rightarrow> (Inl e, s'') | (Inr _, s'') \<Rightarrow> (r, s'')))"

definition whenE :: "bool \<Rightarrow> ('s, unit) eff \<Rightarrow> ('s, unit) eff" where
  "whenE b m = (if b then m else ret ())"

named_theorems eff_simps \<open>evaluation of effects\<close>

lemmas [eff_simps] = ret_def raise_def bindE_def get_s_def modify_s_def lift_result_def
  catchE_def whenE_def

lemma bindE_ret [simp]: "bindE (ret x) f = f x"
  by (rule ext) (simp add: eff_simps)

lemma bindE_raise [simp]: "bindE (raise e) f = raise e"
  by (rule ext) (simp add: eff_simps)

lemma bindE_assoc: "bindE (bindE m f) g = bindE m (\<lambda>x. bindE (f x) g)"
  by (rule ext) (simp add: eff_simps split: prod.splits sum.splits)

lemma bindE_Inr:
  "bindE m f s = (Inr y, s'') \<longleftrightarrow> (\<exists>x s'. m s = (Inr x, s') \<and> f x s' = (Inr y, s''))"
  by (auto simp: bindE_def split: prod.splits sum.splits)

lemma lift_bind: "bindE (lift_result r) f s = (case r of Inl e \<Rightarrow> (Inl e, s) | Inr x \<Rightarrow> f x s)"
  by (simp add: bindE_def lift_result_def)

lemma bindE_Inr_step: "m s = (Inr x, s') \<Longrightarrow> bindE m f s = f x s'"
  by (simp add: bindE_def)

lemma bindE_Inl_step: "m s = (Inl e, s') \<Longrightarrow> bindE m f s = (Inl e, s')"
  by (simp add: bindE_def)

lemma fst_run: "fst p = r \<Longrightarrow> \<exists>s. p = (r, s)"
  by (metis prod.collapse)

lemma run_returns: "\<not> isl (fst p) \<Longrightarrow> \<exists>x s. p = (Inr x, s)"
proof -
  obtain r s where p: "p = (r, s)" by (rule prod.exhaust)
  show "\<exists>x s. p = (Inr x, s)" if "\<not> isl (fst p)" using that unfolding p by (cases r) auto
qed

subsection \<open>Relations an effect obeys\<close>

text \<open>
  An effect obeys \<open>R\<close> when every run relates the state before to the state after,
  whether it returns or raises.  For a reflexive and transitive \<open>R\<close> the combinators
  keep this, so a component only argues about its primitive updates.  The invariants and
  the "never undone" properties of the development are instances.
\<close>

definition obeys :: "('s \<Rightarrow> 's \<Rightarrow> bool) \<Rightarrow> ('s, 'a) eff \<Rightarrow> bool" where
  "obeys R m \<longleftrightarrow> (\<forall>s. R s (snd (m s)))"

lemma obeysD: "obeys R m \<Longrightarrow> R s (snd (m s))"
  by (simp add: obeys_def)

lemma obeysD_pair: "obeys R m \<Longrightarrow> m s = (r, s') \<Longrightarrow> R s s'"
  by (metis obeys_def snd_conv)

locale effect_relation =
  fixes R :: "'s \<Rightarrow> 's \<Rightarrow> bool"
  assumes R_refl: "R s s"
    and R_trans: "R s t \<Longrightarrow> R t u \<Longrightarrow> R s u"
begin

lemma obeys_ret: "obeys R (ret x)"
  by (simp add: obeys_def ret_def R_refl)

lemma obeys_raise: "obeys R (raise e)"
  by (simp add: obeys_def raise_def R_refl)

lemma obeys_get: "obeys R (get_s f)"
  by (simp add: obeys_def get_s_def R_refl)

lemma obeys_lift: "obeys R (lift_result r)"
  by (simp add: obeys_def lift_result_def R_refl)

lemma obeys_modify: "(\<And>s. R s (f s)) \<Longrightarrow> obeys R (modify_s f)"
  by (simp add: obeys_def modify_s_def)

lemma obeys_bind:
  assumes "obeys R m" and "\<And>x. obeys R (f x)"
  shows "obeys R (bindE m f)"
  unfolding obeys_def
proof
  fix s
  obtain r s' where m: "m s = (r, s')" by fastforce
  then have step: "R s s'" using assms(1) by (rule obeysD_pair [rotated])
  show "R s (snd (bindE m f s))"
  proof (cases r)
    case (Inl e)
    with m step show ?thesis by (simp add: bindE_def)
  next
    case (Inr x)
    have "R s' (snd (f x s'))" using assms(2) by (rule obeysD)
    with m Inr step show ?thesis by (auto simp: bindE_def intro: R_trans)
  qed
qed

lemma bind_from:
  assumes "R s (snd (m s))" and "\<And>x s'. m s = (Inr x, s') \<Longrightarrow> R s' (snd (f x s'))"
  shows "R s (snd (bindE m f s))"
proof -
  obtain r s' where m: "m s = (r, s')" by fastforce
  show ?thesis using assms m by (cases r) (auto simp: bindE_def intro: R_trans)
qed

lemma obeys_catch:
  assumes "obeys R m" and "\<And>e. obeys R (h e)"
  shows "obeys R (catchE m h)"
  unfolding obeys_def
proof
  fix s
  obtain r s' where m: "m s = (r, s')" by fastforce
  then have step: "R s s'" using assms(1) by (rule obeysD_pair [rotated])
  show "R s (snd (catchE m h s))"
  proof (cases r)
    case (Inl e)
    have "R s' (snd (h e s'))" using assms(2) by (rule obeysD)
    with m Inl step show ?thesis by (auto simp: catchE_def intro: R_trans)
  next
    case (Inr x)
    with m step show ?thesis by (simp add: catchE_def)
  qed
qed

lemma obeys_when: "obeys R m \<Longrightarrow> obeys R (whenE b m)"
  by (simp add: whenE_def obeys_ret)

lemma obeys_if: "obeys R m \<Longrightarrow> obeys R n \<Longrightarrow> obeys R (if b then m else n)"
  by simp

lemma obeys_option:
  "obeys R m \<Longrightarrow> (\<And>x. obeys R (f x)) \<Longrightarrow>
    obeys R (case opt of None \<Rightarrow> m | Some x \<Rightarrow> f x)"
  by (cases opt) simp_all

lemmas obeys_intros = obeys_ret obeys_raise obeys_get obeys_lift
  obeys_modify obeys_bind obeys_catch obeys_when obeys_if obeys_option

end

subsection \<open>Tables\<close>

text \<open>
  A database table is a list of rows in insertion order.  \<open>find_row\<close> is
  \<open>scalar_one_or_none\<close> of a select: \<open>None\<close>, the only match, or
  \<open>MultipleResultsFound\<close>.
\<close>

definition scalar_one_or_none :: "'a list \<Rightarrow> 'a option result" where
  "scalar_one_or_none rows =
     (case rows of [] \<Rightarrow> Inr None | [r] \<Rightarrow> Inr (Some r) | _ \<Rightarrow> Inl MultipleResultsFound)"

definition find_row :: "('a \<Rightarrow> bool) \<Rightarrow> 'a list \<Rightarrow> 'a option result" where
  "find_row p rows = scalar_one_or_none (filter p rows)"

definition update_rows :: "('a \<Rightarrow> bool) \<Rightarrow> ('a \<Rightarrow> 'a) \<Rightarrow> 'a list \<Rightarrow> 'a list" where
  "update_rows p f rows = map (\<lambda>r. if p r then f r else r) rows"

lemma find_row_Some:
  "find_row p rows = Inr (Some r) \<Longrightarrow> r \<in> set rows \<and> p r"
proof -
  assume "find_row p rows = Inr (Some r)"
  then have "filter p rows = [r]"
    by (auto simp: find_row_def scalar_one_or_none_def split: list.splits)
  then have "r \<in> set (filter p rows)" by simp
  then show ?thesis by simp
qed

lemma find_row_None:
  "find_row p rows = Inr None \<longleftrightarrow> (\<forall>r \<in> set rows. \<not> p r)"
proof -
  have "find_row p rows = Inr None \<longleftrightarrow> filter p rows = []"
    by (auto simp: find_row_def scalar_one_or_none_def split: list.splits)
  then show ?thesis by (simp add: filter_empty_conv)
qed

lemma find_row_only:
  assumes "find_row p rows = Inr (Some r)" and "q \<in> set rows" and "p q"
  shows "q = r"
proof -
  from assms(1) have "filter p rows = [r]"
    by (auto simp: find_row_def scalar_one_or_none_def split: list.splits)
  moreover have "q \<in> set (filter p rows)" using assms by simp
  ultimately show ?thesis by simp
qed

text \<open>On a key that the table keeps distinct, a lookup never sees two rows.\<close>

lemma find_row_unique:
  assumes "distinct (map key rows)"
  shows "find_row (\<lambda>r. key r = k) rows = Inr (List.find (\<lambda>r. key r = k) rows)"
  using assms
proof (induction rows)
  case Nil
  then show ?case by (simp add: find_row_def scalar_one_or_none_def)
next
  case (Cons r rows)
  show ?case
  proof (cases "key r = k")
    case True
    with Cons.prems have "filter (\<lambda>r. key r = k) rows = []"
      by (auto simp: filter_empty_conv image_iff)
    with True show ?thesis by (simp add: find_row_def scalar_one_or_none_def)
  next
    case False
    with Cons show ?thesis by (simp add: find_row_def)
  qed
qed

lemma map_update_rows:
  "(\<And>r. g (f r) = g r) \<Longrightarrow> map g (update_rows p f rows) = map g rows"
  by (simp add: update_rows_def)

lemma update_rows_set:
  "r \<in> set (update_rows p f rows) \<Longrightarrow> r \<in> set rows \<or> (\<exists>r' \<in> set rows. p r' \<and> r = f r')"
  by (auto simp: update_rows_def split: if_splits)

lemma length_update_rows [simp]: "length (update_rows p f rows) = length rows"
  by (simp add: update_rows_def)

lemma update_rows_Nil [simp]: "update_rows p f [] = []"
  by (simp add: update_rows_def)

lemma find_row_update_same:
  assumes "find_row p rows = Inr (Some r)" and "\<And>x. p (f x) = p x"
  shows "find_row p (update_rows p f rows) = Inr (Some (f r))"
proof -
  have "filter p (update_rows p f rows) = map f (filter p rows)"
    unfolding update_rows_def using assms(2) by (induction rows) auto
  with assms(1) show ?thesis
    by (auto simp: find_row_def scalar_one_or_none_def split: list.splits)
qed

text \<open>An update under another condition that the row found satisfies.\<close>

lemma find_row_update_found:
  assumes "find_row p rows = Inr (Some r)" and "\<And>x. p (f x) = p x" and "q r"
  shows "find_row p (update_rows q f rows) = Inr (Some (f r))"
proof -
  let ?g = "\<lambda>x. if q x then f x else x"
  have "filter p (map ?g rows) = map ?g (filter p rows)" using assms(2) by (induction rows) auto
  moreover have "filter p rows = [r]"
    using assms(1) by (auto simp: find_row_def scalar_one_or_none_def split: list.splits)
  ultimately show ?thesis using assms(3) by (simp add: find_row_def scalar_one_or_none_def update_rows_def)
qed

lemma find_row_update_other:
  assumes "\<And>x. p x \<Longrightarrow> \<not> q x" and "\<And>x. p x \<Longrightarrow> \<not> q (f x)"
  shows "find_row q (update_rows p f rows) = find_row q rows"
proof -
  have "filter q (update_rows p f rows) = filter q rows"
    unfolding update_rows_def using assms by (induction rows) auto
  then show ?thesis by (simp add: find_row_def)
qed

end
