(* ===== verification/Py_Text.thy ===== *)
theory Py_Text
  imports Marcel_Prelude "HOL-Library.Sublist" "HOL-Library.Char_ord" "HOL-Library.List_Lexorder"
begin

text \<open>
  Python's \<open>str\<close>, as far as the code uses it.  A \<open>char\<close> stands for the code point of
  the same number, so the model's texts range over the code points below 256; lengths and
  comparisons count code points as Python does, and \<open>str\<close> order is the lexicographic
  order of \<open>List_Lexorder\<close> on \<open>Char_ord\<close>.
\<close>

definition code :: "char \<Rightarrow> nat" where
  "code c = of_char c"

lemma code_char_of [simp]: "n < 256 \<Longrightarrow> code (char_of n) = n"
  by (simp add: code_def)

lemma char_of_code [simp]: "char_of (code c) = c"
  by (simp add: code_def)

lemma code_less [simp]: "code c < 256"
  by (simp add: code_def)

lemma code_eq_iff [simp]: "code c = code d \<longleftrightarrow> c = d"
  by (simp add: code_def)

subsection \<open>Decimal digits\<close>

definition is_digit :: "char \<Rightarrow> bool" where
  "is_digit c \<longleftrightarrow> 48 \<le> code c \<and> code c \<le> 57"

definition digit_char :: "nat \<Rightarrow> char" where
  "digit_char d = char_of (48 + d)"

definition digit_val :: "char \<Rightarrow> nat" where
  "digit_val c = code c - 48"

lemma digit_val_char [simp]: "d < 10 \<Longrightarrow> digit_val (digit_char d) = d"
  by (simp add: digit_val_def digit_char_def)

lemma is_digit_char [simp]: "d < 10 \<Longrightarrow> is_digit (digit_char d)"
  by (simp add: is_digit_def digit_char_def)

lemma digit_char_val [simp]: "is_digit c \<Longrightarrow> digit_char (digit_val c) = c"
  by (simp add: is_digit_def digit_char_def digit_val_def)

lemma zero_digit: "digit_char 0 = CHR ''0''"
proof -
  have "code (CHR ''0'') = 48" by (simp add: code_def)
  then show ?thesis using char_of_code [of "CHR ''0''"] by (simp add: digit_char_def)
qed

lemma digit_val_less [simp]: "is_digit c \<Longrightarrow> digit_val c < 10"
  by (auto simp: is_digit_def digit_val_def)

lemma digit_char_inj: "d < 10 \<Longrightarrow> e < 10 \<Longrightarrow> digit_char d = digit_char e \<longleftrightarrow> d = e"
  by (metis digit_val_char)

text \<open>\<open>str(n)\<close> of a non-negative integer, and the value of a digit string.\<close>

fun nat_str :: "nat \<Rightarrow> string" where
  "nat_str n = (if n < 10 then [digit_char n] else nat_str (n div 10) @ [digit_char (n mod 10)])"

declare nat_str.simps [simp del]

definition digits_val :: "string \<Rightarrow> nat" where
  "digits_val s = foldl (\<lambda>a c. 10 * a + digit_val c) 0 s"

lemma digits_val_Nil [simp]: "digits_val [] = 0"
  by (simp add: digits_val_def)

lemma digits_val_snoc [simp]: "digits_val (s @ [c]) = 10 * digits_val s + digit_val c"
  by (simp add: digits_val_def)

lemma digits_val_append:
  "digits_val (s @ t) = digits_val s * 10 ^ length t + digits_val t"
proof (induction t rule: rev_induct)
  case Nil
  then show ?case by simp
next
  case (snoc c t)
  have "digits_val (s @ t @ [c]) = digits_val ((s @ t) @ [c])" by simp
  also have "\<dots> = 10 * digits_val (s @ t) + digit_val c" by (rule digits_val_snoc)
  finally show ?case using snoc by (simp add: algebra_simps)
qed

lemma digits_val_zeros [simp]: "digits_val (replicate k (CHR ''0'')) = 0"
proof (induction k)
  case (Suc k)
  have "digits_val (CHR ''0'' # replicate k (CHR ''0''))
      = digits_val ([] @ [CHR ''0'']) * 10 ^ k + digits_val (replicate k (CHR ''0''))"
    using digits_val_append [of "[CHR ''0'']" "replicate k (CHR ''0'')"] by simp
  with Suc show ?case by (simp only: digits_val_snoc replicate.simps) (simp add: digit_val_def code_def)
qed simp

lemma nat_str_digits: "\<forall>c \<in> set (nat_str n). is_digit c"
proof (induction n rule: nat_str.induct)
  case (1 n)
  show ?case
  proof (cases "n < 10")
    case True
    then show ?thesis by (simp add: nat_str.simps [of n])
  next
    case False
    with 1 show ?thesis by (simp add: nat_str.simps [of n])
  qed
qed

lemma nat_str_nonempty [simp]: "nat_str n \<noteq> []"
  by (subst nat_str.simps) simp

lemma digits_val_nat_str [simp]: "digits_val (nat_str n) = n"
proof (induction n rule: nat_str.induct)
  case (1 n)
  show ?case
  proof (cases "n < 10")
    case True
    then show ?thesis using digits_val_snoc [of "[]" "digit_char n"] by (simp add: nat_str.simps [of n])
  next
    case False
    with 1 show ?thesis by (simp add: nat_str.simps [of n])
  qed
qed

lemma nat_str_inj [simp]: "nat_str m = nat_str n \<longleftrightarrow> m = n"
  by (metis digits_val_nat_str)

lemma nat_str_hd_zero: "hd (nat_str n) = CHR ''0'' \<longleftrightarrow> n = 0"
proof (induction n rule: nat_str.induct)
  case (1 n)
  show ?case
  proof (cases "n < 10")
    case True
    have "digit_char n = CHR ''0'' \<longleftrightarrow> n = 0"
      using True digit_char_inj [of n 0] by (simp add: zero_digit)
    with True show ?thesis by (simp add: nat_str.simps [of n])
  next
    case False
    with 1 show ?thesis by (simp add: nat_str.simps [of n] hd_append)
  qed
qed

definition int_str :: "int \<Rightarrow> string" where
  "int_str i = (if i < 0 then CHR ''-'' # nat_str (nat (- i)) else nat_str (nat i))"

lemma digit_not_minus: "is_digit c \<Longrightarrow> c \<noteq> CHR ''-''"
  by (auto simp: is_digit_def code_def)

lemma nat_str_not_minus: "nat_str n \<noteq> CHR ''-'' # s"
  using nat_str_digits [of n] digit_not_minus by (metis list.set_intros(1))

lemma int_str_inj [simp]: "int_str i = int_str j \<longleftrightarrow> i = j"
  using nat_str_not_minus by (auto simp: int_str_def) (metis nat_str_not_minus)+

subsection \<open>White space\<close>

text \<open>
  \<open>str.isspace\<close> on the code points below 256, used by \<open>str.strip\<close> and by
  \<open>Decimal(str)\<close>.  Pydantic's \<open>str_strip_whitespace\<close> strips the characters with the
  Unicode property White\_Space, which leaves out the four information separators 28 to 31.
\<close>

definition py_isspace :: "char \<Rightarrow> bool" where
  "py_isspace c \<longleftrightarrow> code c \<in> {9, 10, 11, 12, 13, 28, 29, 30, 31, 32, 133, 160}"

definition unicode_white_space :: "char \<Rightarrow> bool" where
  "unicode_white_space c \<longleftrightarrow> code c \<in> {9, 10, 11, 12, 13, 32, 133, 160}"

definition strip_by :: "(char \<Rightarrow> bool) \<Rightarrow> string \<Rightarrow> string" where
  "strip_by p s = rev (dropWhile p (rev (dropWhile p s)))"

definition py_strip :: "string \<Rightarrow> string" where
  "py_strip = strip_by py_isspace"

definition model_strip :: "string \<Rightarrow> string" where
  "model_strip = strip_by unicode_white_space"

lemma strip_by_set: "c \<in> set (strip_by p s) \<Longrightarrow> c \<in> set s"
  by (auto simp: strip_by_def dest!: set_dropWhileD)

lemma strip_by_length: "length (strip_by p s) \<le> length s"
proof -
  have "length (dropWhile p (rev (dropWhile p s))) \<le> length (rev (dropWhile p s))"
    by (rule length_dropWhile_le)
  also have "\<dots> \<le> length s" by (simp add: length_dropWhile_le)
  finally show ?thesis by (simp add: strip_by_def)
qed

text \<open>Stripping leaves a text whose ends are not white space, and stripping again changes nothing.\<close>

lemma dropWhile_id_iff: "dropWhile p s = s \<longleftrightarrow> s = [] \<or> \<not> p (hd s)"
proof (cases s)
  case (Cons c cs)
  have "dropWhile p cs \<noteq> c # cs"
    using length_dropWhile_le [of p cs] by (metis impossible_Cons)
  with Cons show ?thesis by simp
qed simp

lemma last_dropWhile: "dropWhile p s \<noteq> [] \<Longrightarrow> last (dropWhile p s) = last s"
  by (metis last_append takeWhile_dropWhile_id)

lemma strip_by_ends:
  assumes "strip_by p s \<noteq> []"
  shows "\<not> p (hd (strip_by p s))" and "\<not> p (last (strip_by p s))"
proof -
  let ?t = "dropWhile p s"
  let ?u = "dropWhile p (rev ?t)"
  from assms have u: "?u \<noteq> []" unfolding strip_by_def by (metis rev.simps(1))
  then have t: "?t \<noteq> []" by (metis dropWhile.simps(1) rev.simps(1))
  have strip: "strip_by p s = rev ?u" by (rule strip_by_def)
  have "\<not> p (hd ?u)" using u by (rule hd_dropWhile)
  then show "\<not> p (last (strip_by p s))" unfolding strip using u by (metis last_rev)
  have "hd (rev ?u) = hd ?t"
    using u last_dropWhile [OF u] by (simp only: hd_rev last_rev)
  moreover have "\<not> p (hd ?t)" using t by (rule hd_dropWhile)
  ultimately show "\<not> p (hd (strip_by p s))" unfolding strip by simp
qed

lemma strip_by_idem [simp]: "strip_by p (strip_by p s) = strip_by p s"
proof (cases "strip_by p s = []")
  case True
  show ?thesis unfolding True by (simp add: strip_by_def)
next
  case False
  then have "dropWhile p (strip_by p s) = strip_by p s"
    and "dropWhile p (rev (strip_by p s)) = rev (strip_by p s)"
    using strip_by_ends [OF False] by (simp_all only: dropWhile_id_iff hd_rev) simp_all
  then show ?thesis by (simp only: strip_by_def [of p "strip_by p s"] rev_rev_ident)
qed

lemma strip_by_id: "\<forall>c \<in> set s. \<not> p c \<Longrightarrow> strip_by p s = s"
proof -
  assume "\<forall>c \<in> set s. \<not> p c"
  then have "dropWhile p s = s" and "dropWhile p (rev s) = rev s"
    by (auto simp: dropWhile_id_iff) (metis hd_rev last_in_set)
  then show ?thesis by (simp add: strip_by_def)
qed

subsection \<open>Case, membership and joining\<close>

definition py_in :: "string \<Rightarrow> string \<Rightarrow> bool" where
  "py_in needle text \<longleftrightarrow> sublist needle text"

fun py_join :: "string \<Rightarrow> string list \<Rightarrow> string" where
  "py_join sep [] = []"
| "py_join sep [s] = s"
| "py_join sep (s # ss) = s @ sep @ py_join sep ss"

text \<open>
  \<open>str.lower\<close> and \<open>str.upper\<close>.  \<open>upper\<close> of code points 181 and 255 lies outside
  the first 256 code points; there \<open>upper_char\<close> is \<open>None\<close>.  The sharp s (223) becomes
  two letters.
\<close>

definition lower_char :: "char \<Rightarrow> char" where
  "lower_char c =
     (if (65 \<le> code c \<and> code c \<le> 90) \<or> (192 \<le> code c \<and> code c \<le> 222 \<and> code c \<noteq> 215)
      then char_of (code c + 32) else c)"

definition py_lower :: "string \<Rightarrow> string" where
  "py_lower s = map lower_char s"

definition upper_char :: "char \<Rightarrow> string option" where
  "upper_char c =
     (if (97 \<le> code c \<and> code c \<le> 122) \<or> (224 \<le> code c \<and> code c \<le> 254 \<and> code c \<noteq> 247)
      then Some [char_of (code c - 32)]
      else if code c = 223 then Some ''SS''
      else if code c = 181 \<or> code c = 255 then None
      else Some [c])"

fun py_upper :: "string \<Rightarrow> string option" where
  "py_upper [] = Some []"
| "py_upper (c # cs) =
     (case upper_char c of None \<Rightarrow> None
      | Some u \<Rightarrow> map_option (\<lambda>us. u @ us) (py_upper cs))"

definition is_alpha :: "char \<Rightarrow> bool" where
  "is_alpha c \<longleftrightarrow> (65 \<le> code c \<and> code c \<le> 90) \<or> (97 \<le> code c \<and> code c \<le> 122)
     \<or> code c \<in> {170, 181, 186} \<or> (192 \<le> code c \<and> code c \<noteq> 215 \<and> code c \<noteq> 247)"

definition py_isalpha :: "string \<Rightarrow> bool" where
  "py_isalpha s \<longleftrightarrow> s \<noteq> [] \<and> list_all is_alpha s"

definition is_ascii :: "string \<Rightarrow> bool" where
  "is_ascii s \<longleftrightarrow> list_all (\<lambda>c. code c < 128) s"

text \<open>\<open>sorted(set(xs))\<close>.\<close>

definition sorted_set :: "string list \<Rightarrow> string list" where
  "sorted_set xs = sort (remdups xs)"

lemma sorted_set_set [simp]: "set (sorted_set xs) = set xs"
  by (simp add: sorted_set_def)

lemma sorted_set_sorted: "sorted (sorted_set xs)"
  by (simp add: sorted_set_def)

lemma sorted_set_distinct: "distinct (sorted_set xs)"
  by (simp add: sorted_set_def)

lemma sorted_set_eq_sorted_list_of_set: "sorted_set xs = sorted_list_of_set (set xs)"
  using sorted_set_sorted sorted_set_distinct
  by (metis sorted_list_of_set.idem_if_sorted_distinct sorted_set_set)

lemma sorted_set_Nil_iff [simp]: "sorted_set xs = [] \<longleftrightarrow> xs = []"
  by (metis set_empty sorted_set_set)

lemma sorted_set_idem: "sorted_set (sorted_set xs) = sorted_set xs"
  by (simp add: sorted_set_eq_sorted_list_of_set)

end
