(* ===== verification/Scaled_Numbers.thy ===== *)
theory Scaled_Numbers
  imports Complex_Main "HOL-Library.Log_Nat"
begin

text \<open>
  Numbers of the form \<open>m * b ^ e\<close> with integers \<open>m\<close> and \<open>e\<close>, as pairs.  With base
  10 they are Python's finite \<open>Decimal\<close>s, with base 2 the finite binary doubles of
  Lua and Python.  All operations compute on integers; \<open>sval\<close> gives the rational number
  a pair stands for, and every operation is related to it.
\<close>

type_synonym scaled = "int \<times> int"

definition sval :: "nat \<Rightarrow> scaled \<Rightarrow> rat" where
  "sval b x = of_int (fst x) * of_nat b powi snd x"

definition sdiff :: "nat \<Rightarrow> scaled \<Rightarrow> scaled \<Rightarrow> scaled" where
  "sdiff b x y =
     (let e = min (snd x) (snd y)
      in (fst x * int b ^ nat (snd x - e) - fst y * int b ^ nat (snd y - e), e))"

definition ssum :: "nat \<Rightarrow> scaled \<Rightarrow> scaled \<Rightarrow> scaled" where
  "ssum b x y =
     (let e = min (snd x) (snd y)
      in (fst x * int b ^ nat (snd x - e) + fst y * int b ^ nat (snd y - e), e))"

definition sless :: "nat \<Rightarrow> scaled \<Rightarrow> scaled \<Rightarrow> bool" where
  "sless b x y \<longleftrightarrow> fst (sdiff b x y) < 0"

definition seq :: "nat \<Rightarrow> scaled \<Rightarrow> scaled \<Rightarrow> bool" where
  "seq b x y \<longleftrightarrow> fst (sdiff b x y) = 0"

lemma powi_nat_diff:
  fixes x :: rat
  assumes "x \<noteq> 0" and "e \<le> e'"
  shows "x powi e' = x ^ nat (e' - e) * x powi e"
proof -
  have "x powi e' = x powi (int (nat (e' - e)) + e)" using assms(2) by simp
  also have "\<dots> = x powi int (nat (e' - e)) * x powi e"
    using assms(1) by (simp add: power_int_add)
  finally show ?thesis by (simp only: power_int_of_nat)
qed

lemma sval_align:
  assumes "0 < b" and "e \<le> snd x"
  shows "sval b (fst x * int b ^ nat (snd x - e), e) = sval b x"
  using assms powi_nat_diff [of "of_nat b" e "snd x"] by (simp add: sval_def)

lemma sval_pair_diff: "sval b (m - n, e) = sval b (m, e) - sval b (n, e)"
  and sval_pair_sum: "sval b (m + n, e) = sval b (m, e) + sval b (n, e)"
  by (simp_all add: sval_def left_diff_distrib distrib_right)

lemma sval_sdiff [simp]: "0 < b \<Longrightarrow> sval b (sdiff b x y) = sval b x - sval b y"
  by (simp add: sdiff_def Let_def sval_pair_diff sval_align)

lemma sval_ssum [simp]: "0 < b \<Longrightarrow> sval b (ssum b x y) = sval b x + sval b y"
  by (simp add: ssum_def Let_def sval_pair_sum sval_align)

lemma sval_sign:
  assumes "0 < b"
  shows "sval b x < 0 \<longleftrightarrow> fst x < 0" and "sval b x = 0 \<longleftrightarrow> fst x = 0"
    and "0 < sval b x \<longleftrightarrow> 0 < fst x"
proof -
  have p: "0 < (of_nat b :: rat) powi snd x" using assms by (simp add: zero_less_power_int)
  then show "sval b x < 0 \<longleftrightarrow> fst x < 0" and "sval b x = 0 \<longleftrightarrow> fst x = 0"
    and "0 < sval b x \<longleftrightarrow> 0 < fst x"
    by (auto simp: sval_def mult_less_0_iff zero_less_mult_iff)
qed

lemma sless_iff: "0 < b \<Longrightarrow> sless b x y \<longleftrightarrow> sval b x < sval b y"
  using sval_sign(1) [of b "sdiff b x y"] by (simp add: sless_def)

lemma seq_iff: "0 < b \<Longrightarrow> seq b x y \<longleftrightarrow> sval b x = sval b y"
  using sval_sign(2) [of b "sdiff b x y"] by (simp add: seq_def)

subsection \<open>Rounding to nearest, ties to even\<close>

definition round_half_even :: "nat \<Rightarrow> nat \<Rightarrow> nat" where
  "round_half_even n d =
     (let q = n div d; r = n mod d
      in if 2 * r < d \<or> (2 * r = d \<and> even q) then q else q + 1)"

lemma round_half_even_exact [simp]: "0 < d \<Longrightarrow> round_half_even (q * d) d = q"
  by (simp add: round_half_even_def)

lemma round_half_even_bounds:
  assumes "0 < d"
  shows "2 * n \<le> 2 * round_half_even n d * d + d"
    and "2 * round_half_even n d * d \<le> 2 * n + d"
proof -
  define m r where "m = n div d * d" and "r = n mod d"
  have n: "n = m + r" and r: "r < d" using assms by (simp_all add: m_def r_def)
  have round: "round_half_even n d * d
      = (if 2 * r < d \<or> (2 * r = d \<and> even (n div d)) then m else m + d)"
    by (simp add: round_half_even_def Let_def m_def r_def add.commute)
  have "2 * n \<le> 2 * (round_half_even n d * d) + d"
    unfolding round using n r by auto
  then show "2 * n \<le> 2 * round_half_even n d * d + d" by (simp only: mult.assoc)
  have "2 * (round_half_even n d * d) \<le> 2 * n + d"
    unfolding round using n r by auto
  then show "2 * round_half_even n d * d \<le> 2 * n + d" by (simp only: mult.assoc)
qed

lemma round_half_even_mono_bounds:
  assumes "0 < d" and "a * d \<le> n" and "n < c * d"
  shows "a \<le> round_half_even n d" and "round_half_even n d \<le> c"
proof -
  have "a \<le> n div d" using assms by (simp add: less_eq_div_iff_mult_less_eq)
  then show "a \<le> round_half_even n d" by (simp add: round_half_even_def Let_def)
  have "n div d < c" using assms by (simp add: less_mult_imp_div_less)
  then show "round_half_even n d \<le> c" by (simp add: round_half_even_def Let_def)
qed

text \<open>
  \<open>round_frac b p n d\<close>: the number with a \<open>p\<close>-digit mantissa in base \<open>b\<close> nearest to
  \<open>n / d\<close>, ties to even.  The exponent is unbounded in both directions; the amounts of
  the program stay far inside the exponent range of doubles and of decimal contexts.
\<close>

definition frac_scale :: "nat \<Rightarrow> nat \<Rightarrow> nat \<Rightarrow> int \<Rightarrow> nat \<times> nat" where
  "frac_scale b n d e = (n * b ^ nat (- e), d * b ^ nat e)"

definition round_exp :: "nat \<Rightarrow> nat \<Rightarrow> nat \<Rightarrow> nat \<Rightarrow> int" where
  "round_exp b p n d =
     (let e = int (floorlog b n) - int (floorlog b d) - int p;
          s = frac_scale b n d e
      in if snd s * b ^ p \<le> fst s then e + 1 else e)"

definition round_mant :: "nat \<Rightarrow> nat \<Rightarrow> nat \<Rightarrow> nat \<Rightarrow> nat" where
  "round_mant b p n d =
     (let s = frac_scale b n d (round_exp b p n d) in round_half_even (fst s) (snd s))"

definition round_frac :: "nat \<Rightarrow> nat \<Rightarrow> nat \<Rightarrow> nat \<Rightarrow> nat \<times> int" where
  "round_frac b p n d =
     (if n = 0 then (0, 0)
      else let e = round_exp b p n d; q = round_mant b p n d
           in if q = b ^ p then (b ^ (p - 1), e + 1) else (q, e))"

lemma frac_scale_val:
  assumes "0 < b" and "0 < d"
  shows "(of_nat (fst (frac_scale b n d e)) :: rat)
    = of_nat n / of_nat d * of_nat b powi (- e) * of_nat (snd (frac_scale b n d e))"
proof (cases "0 \<le> e")
  case True
  then have "nat (- e) = 0" and "(of_nat b :: rat) powi (- e) = 1 / of_nat b ^ nat e"
    by (simp_all add: power_int_def divide_inverse power_inverse)
  with assms show ?thesis by (simp add: frac_scale_def)
next
  case False
  then have "nat e = 0" and "(of_nat b :: rat) powi (- e) = of_nat b ^ nat (- e)"
    by (simp_all add: power_int_def)
  with assms show ?thesis by (simp add: frac_scale_def)
qed

lemma frac_scale_pos: "0 < b \<Longrightarrow> 0 < d \<Longrightarrow> 0 < snd (frac_scale b n d e)"
  by (simp add: frac_scale_def)

text \<open>Comparing a scaled fraction with a power of the base is comparing the fraction itself.\<close>

lemma frac_scale_le_iff:
  assumes "0 < b" and "0 < d"
  shows "c * snd (frac_scale b n d e) \<le> fst (frac_scale b n d e)
    \<longleftrightarrow> of_nat c * of_nat b powi e \<le> (of_nat n / of_nat d :: rat)"
proof -
  let ?s = "frac_scale b n d e"
  have pos: "0 < (of_nat (snd ?s) :: rat)" using frac_scale_pos [OF assms] by simp
  have powpos: "0 < (of_nat b :: rat) powi e" using assms by (simp add: zero_less_power_int)
  have "c * snd ?s \<le> fst ?s
      \<longleftrightarrow> (of_nat c * of_nat (snd ?s) :: rat) \<le> of_nat (fst ?s)"
    by (metis of_nat_le_iff of_nat_mult)
  also have "\<dots> \<longleftrightarrow> (of_nat c :: rat) * of_nat (snd ?s)
      \<le> of_nat n / of_nat d * of_nat b powi (- e) * of_nat (snd ?s)"
    by (simp only: frac_scale_val [OF assms])
  also have "\<dots> \<longleftrightarrow> (of_nat c :: rat) \<le> of_nat n / of_nat d * of_nat b powi (- e)"
    using pos by (simp only: mult_le_cancel_right) auto
  also have "of_nat n / of_nat d * of_nat b powi (- e)
      = (of_nat n / of_nat d :: rat) / of_nat b powi e"
    by (simp only: power_int_minus divide_inverse)
  also have "(of_nat c :: rat) \<le> of_nat n / of_nat d / of_nat b powi e
      \<longleftrightarrow> (of_nat c :: rat) * of_nat b powi e \<le> of_nat n / of_nat d"
    using powpos by (rule pos_le_divide_eq)
  finally show ?thesis .
qed

lemma floorlog_frac_bounds:
  fixes b :: nat
  assumes "1 < b" and "0 < n" and "0 < d"
  defines "l \<equiv> int (floorlog b n) - int (floorlog b d)"
  shows "of_nat b powi (l - 1) < (of_nat n / of_nat d :: rat)"
    and "(of_nat n / of_nat d :: rat) < of_nat b powi (l + 1)"
proof -
  let ?B = "of_nat b :: rat"
  have B: "0 < ?B" "?B \<noteq> 0" using assms by simp_all
  have n1: "?B ^ (floorlog b n - 1) \<le> of_nat n" and n2: "of_nat n < ?B ^ floorlog b n"
    using floorlog_bounds [of n b] assms by (metis of_nat_le_iff of_nat_power, metis of_nat_less_iff of_nat_power)
  have d1: "?B ^ (floorlog b d - 1) \<le> of_nat d" and d2: "of_nat d < ?B ^ floorlog b d"
    using floorlog_bounds [of d b] assms by (metis of_nat_le_iff of_nat_power, metis of_nat_less_iff of_nat_power)
  have fn: "1 \<le> floorlog b n" and fd: "1 \<le> floorlog b d"
    using assms by (simp_all add: Suc_le_eq floorlog_eq_zero_iff flip: neq0_conv)
  have d0: "0 < (of_nat d :: rat)" and n0: "0 < (of_nat n :: rat)" using assms by simp_all
  have "?B powi (l - 1) = ?B ^ (floorlog b n - 1) / ?B ^ floorlog b d"
    using B fn by (simp add: l_def power_int_diff power_diff)
  also have "\<dots> < of_nat n / of_nat d"
    using n1 d2 d0 n0 B by (intro frac_less2) simp_all
  finally show "?B powi (l - 1) < of_nat n / of_nat d" .
  have "of_nat n / of_nat d < ?B ^ floorlog b n / ?B ^ (floorlog b d - 1)"
    using n2 d1 d0 n0 B by (intro frac_less) simp_all
  also have "\<dots> = ?B powi (l + 1)"
    using B fd by (simp add: l_def power_int_add power_int_diff power_diff)
  finally show "of_nat n / of_nat d < ?B powi (l + 1)" .
qed

text \<open>The exponent puts the fraction into the range of \<open>p\<close>-digit mantissas.\<close>

lemma round_exp_bounds:
  assumes "1 < b" and "0 < p" and "0 < n" and "0 < d"
  defines "e \<equiv> round_exp b p n d"
  shows "of_nat b ^ (p - 1) * of_nat b powi e \<le> (of_nat n / of_nat d :: rat)"
    and "(of_nat n / of_nat d :: rat) < of_nat b ^ p * of_nat b powi e"
proof -
  let ?B = "of_nat b :: rat" and ?x = "of_nat n / of_nat d :: rat"
  define l where "l = int (floorlog b n) - int (floorlog b d)"
  define e0 where "e0 = l - int p"
  have B: "?B \<noteq> 0" using assms by simp
  have lo: "?B powi (l - 1) < ?x" and hi: "?x < ?B powi (l + 1)"
    using floorlog_frac_bounds [OF assms(1,3,4)] by (simp_all add: l_def)
  have pw: "?B ^ k * ?B powi i = ?B powi (int k + i)" for k i
    using B by (simp add: power_int_add)
  let ?s = "frac_scale b n d e0"
  have e: "e = (if snd ?s * b ^ p \<le> fst ?s then e0 + 1 else e0)"
    by (simp add: e_def round_exp_def l_def e0_def Let_def)
  have test: "snd ?s * b ^ p \<le> fst ?s \<longleftrightarrow> ?B powi l \<le> ?x"
    using frac_scale_le_iff [of b d "b ^ p" n e0] assms pw [of p e0]
    by (simp add: e0_def mult.commute)
  have "?B ^ (p - 1) * ?B powi e \<le> ?x \<and> ?x < ?B ^ p * ?B powi e"
  proof (cases "?B powi l \<le> ?x")
    case True
    then have "e = e0 + 1" using e test by simp
    then have *: "int (p - 1) + e = l" "int p + e = l + 1"
      using assms(2) by (simp_all add: e0_def)
    show ?thesis unfolding pw * using True hi by blast
  next
    case False
    then have "e = e0" using e test by simp
    then have *: "int (p - 1) + e = l - 1" "int p + e = l"
      using assms(2) by (simp_all add: e0_def)
    show ?thesis unfolding pw * using False lo by linarith
  qed
  then show "?B ^ (p - 1) * ?B powi e \<le> ?x" and "?x < ?B ^ p * ?B powi e" by blast+
qed

lemma round_frac_zero [simp]: "round_frac b p 0 d = (0, 0)"
  by (simp add: round_frac_def)

text \<open>A mantissa that is not zero has exactly \<open>p\<close> digits.\<close>

lemma round_mant_bounds:
  assumes "1 < b" and "0 < p" and "0 < n" and "0 < d"
  shows "b ^ (p - 1) \<le> round_mant b p n d" and "round_mant b p n d \<le> b ^ p"
proof -
  define e where "e = round_exp b p n d"
  let ?s = "frac_scale b n d e"
  have pos: "0 < snd ?s" using assms by (intro frac_scale_pos) simp_all
  have lo: "b ^ (p - 1) * snd ?s \<le> fst ?s"
    using round_exp_bounds(1) [OF assms] frac_scale_le_iff [of b d "b ^ (p - 1)" n e] assms
    by (simp add: e_def)
  have hi: "fst ?s < b ^ p * snd ?s"
    using round_exp_bounds(2) [OF assms] frac_scale_le_iff [of b d "b ^ p" n e] assms
    unfolding e_def not_le [symmetric] by simp
  show "b ^ (p - 1) \<le> round_mant b p n d" and "round_mant b p n d \<le> b ^ p"
    using round_half_even_mono_bounds [OF pos lo hi] by (simp_all add: round_mant_def e_def Let_def)
qed

lemma round_frac_mantissa:
  assumes "1 < b" and "0 < p" and "0 < n" and "0 < d"
  shows "b ^ (p - 1) \<le> fst (round_frac b p n d)" and "fst (round_frac b p n d) < b ^ p"
proof -
  have less: "b ^ (p - 1) < b ^ p" using assms by simp
  note q = round_mant_bounds [OF assms]
  have r: "fst (round_frac b p n d)
      = (if round_mant b p n d = b ^ p then b ^ (p - 1) else round_mant b p n d)"
    using assms(3) by (simp add: round_frac_def Let_def)
  show "b ^ (p - 1) \<le> fst (round_frac b p n d)" unfolding r using q by simp
  show "fst (round_frac b p n d) < b ^ p" unfolding r using q less by simp
qed

lemma round_frac_val:
  assumes "1 < b" and "0 < p" and "0 < n"
  shows "(of_nat (fst (round_frac b p n d)) :: rat) * of_nat b powi snd (round_frac b p n d)
    = of_nat (round_mant b p n d) * of_nat b powi round_exp b p n d"
proof (cases "round_mant b p n d = b ^ p")
  case True
  let ?B = "of_nat b :: rat" and ?e = "round_exp b p n d"
  have "?B ^ p = ?B ^ (p - 1) * ?B" using assms(2) by (metis power_minus_mult)
  moreover have "?B powi (?e + 1) = ?B * ?B powi ?e"
    using assms(1) by (simp add: power_int_add)
  ultimately have "?B ^ (p - 1) * ?B powi (?e + 1) = ?B ^ p * ?B powi ?e" by simp
  with True assms(3) show ?thesis by (simp add: round_frac_def Let_def)
next
  case False
  with assms(3) show ?thesis by (simp add: round_frac_def Let_def)
qed

lemma near_quotient:
  fixes q n s :: rat
  assumes "0 < s" and "2 * n \<le> 2 * q * s + s" and "2 * q * s \<le> 2 * n + s"
  shows "\<bar>q - n / s\<bar> \<le> 1 / 2"
proof -
  have "n / s \<le> q + 1 / 2" using assms by (simp add: field_simps)
  moreover have "q - 1 / 2 \<le> n / s" using assms by (simp add: field_simps)
  ultimately show ?thesis by (intro abs_leI) linarith+
qed

text \<open>Rounding moves a number by at most half a unit in the last place of the result.\<close>

lemma round_frac_error:
  assumes "1 < b" and "0 < p" and "0 < n" and "0 < d"
  defines "x \<equiv> of_nat n / of_nat d :: rat" and "e \<equiv> round_exp b p n d"
  shows "\<bar>of_nat (fst (round_frac b p n d)) * of_nat b powi snd (round_frac b p n d) - x\<bar>
    \<le> of_nat b powi e / 2"
proof -
  let ?s = "frac_scale b n d e" and ?B = "of_nat b :: rat"
  let ?q = "round_half_even (fst ?s) (snd ?s)"
  have B: "?B \<noteq> 0" and P: "0 < ?B powi e" using assms by (simp_all add: zero_less_power_int)
  have pos: "0 < snd ?s" using assms by (intro frac_scale_pos) simp_all
  then have pos': "0 < (of_nat (snd ?s) :: rat)" by simp
  have val: "of_nat (fst ?s) / of_nat (snd ?s) = x * ?B powi (- e)"
    using frac_scale_val [of b d n e] assms pos' by simp
  have "of_nat (2 * fst ?s) \<le> (of_nat (2 * ?q * snd ?s + snd ?s) :: rat)"
    using round_half_even_bounds(1) [OF pos, of "fst ?s"] by (simp only: of_nat_le_iff)
  moreover have "of_nat (2 * ?q * snd ?s) \<le> (of_nat (2 * fst ?s + snd ?s) :: rat)"
    using round_half_even_bounds(2) [OF pos, of "fst ?s"] by (simp only: of_nat_le_iff)
  ultimately have "\<bar>of_nat ?q - of_nat (fst ?s) / of_nat (snd ?s)\<bar> \<le> (1 / 2 :: rat)"
    using pos' by (intro near_quotient) simp_all
  then have "\<bar>of_nat ?q - x * ?B powi (- e)\<bar> * ?B powi e \<le> 1 / 2 * ?B powi e"
    unfolding val using P by (intro mult_right_mono) simp_all
  moreover have "\<bar>of_nat ?q - x * ?B powi (- e)\<bar> * ?B powi e = \<bar>of_nat ?q * ?B powi e - x\<bar>"
  proof -
    have "\<bar>of_nat ?q - x * ?B powi (- e)\<bar> * ?B powi e
        = \<bar>(of_nat ?q - x * ?B powi (- e)) * ?B powi e\<bar>"
      using P by (simp add: abs_mult)
    also have "(of_nat ?q - x * ?B powi (- e)) * ?B powi e = of_nat ?q * ?B powi e - x"
      using P B by (simp add: power_int_minus field_simps)
    finally show ?thesis .
  qed
  ultimately show ?thesis
    unfolding round_frac_val [OF assms(1-3)] round_mant_def Let_def e_def x_def by linarith
qed

text \<open>A number that has a mantissa of \<open>p\<close> digits is its own rounding.\<close>

lemma round_frac_exact:
  assumes "1 < b" and "0 < p" and "0 < d" and "m < b ^ p"
    and x: "(of_nat n / of_nat d :: rat) = of_nat m * of_nat b powi t"
  shows "of_nat (fst (round_frac b p n d)) * of_nat b powi snd (round_frac b p n d)
    = (of_nat n / of_nat d :: rat)"
proof (cases "n = 0")
  case True
  then show ?thesis by simp
next
  case False
  then have n: "0 < n" by simp
  let ?B = "of_nat b :: rat"
  define e where "e = round_exp b p n d"
  define s where "s = frac_scale b n d e"
  have B: "?B \<noteq> 0" "0 < ?B powi t" using assms(1) by (simp_all add: zero_less_power_int)
  have pos: "0 < snd s" using assms by (simp add: s_def frac_scale_pos)
  have lo: "?B ^ (p - 1) * ?B powi e \<le> of_nat m * ?B powi t"
    using round_exp_bounds(1) [OF assms(1,2) n assms(3)] x by (simp add: e_def)
  have "e \<le> t"
  proof (rule ccontr)
    assume "\<not> e \<le> t"
    then have "e = int (Suc (nat (e - t - 1))) + t" by simp
    then obtain k where k: "e = int (Suc k) + t" by blast
    have "?B ^ p * ?B powi t \<le> ?B ^ (p - 1) * ?B powi e"
    proof -
      have "?B powi e = ?B powi int (Suc k) * ?B powi t"
        unfolding k by (rule power_int_add) (use B in simp)
      then have "?B ^ (p - 1) * ?B powi e = ?B ^ (p - 1) * ?B ^ Suc k * ?B powi t"
        by (simp only: power_int_of_nat mult.assoc)
      also have "?B ^ (p - 1) * ?B ^ Suc k = ?B ^ p * ?B ^ k"
      proof -
        have "p - 1 + Suc k = p + k" using assms(2) by simp
        then show ?thesis by (metis power_add)
      qed
      finally have "?B ^ (p - 1) * ?B powi e = ?B ^ p * ?B powi t * ?B ^ k" by simp
      moreover have "1 \<le> ?B ^ k" using assms(1) by (simp add: one_le_power)
      moreover have "0 \<le> ?B ^ p * ?B powi t" using B by simp
      ultimately show ?thesis using mult_left_mono [of 1 "?B ^ k"] by fastforce
    qed
    with lo have "?B ^ p * ?B powi t \<le> of_nat m * ?B powi t" by linarith
    with B have "?B ^ p \<le> of_nat m" by simp
    then have "b ^ p \<le> m" by (metis of_nat_le_iff of_nat_power)
    with assms(4) show False by simp
  qed
  define k where "k = m * b ^ nat (t - e)"
  have xk: "(of_nat n / of_nat d :: rat) = of_nat k * ?B powi e"
    using x powi_nat_diff [OF B(1) \<open>e \<le> t\<close>] by (simp add: k_def)
  have "(of_nat (fst s) :: rat) = of_nat k * ?B powi e * ?B powi (- e) * of_nat (snd s)"
    unfolding s_def using frac_scale_val [of b d n e] assms(1,3) xk by simp
  also have "\<dots> = of_nat (k * snd s)" using B by (simp add: power_int_minus)
  finally have "fst s = k * snd s" by (simp only: of_nat_eq_iff)
  then have "round_mant b p n d = k"
    using pos by (simp add: round_mant_def Let_def e_def [symmetric] s_def [symmetric])
  then show ?thesis
    unfolding round_frac_val [OF assms(1,2) n] xk by (simp add: e_def)
qed

subsection \<open>Signed rounding\<close>

definition round_ratio :: "nat \<Rightarrow> nat \<Rightarrow> int \<Rightarrow> nat \<Rightarrow> scaled" where
  "round_ratio b p n d = (let r = round_frac b p (nat \<bar>n\<bar>) d in (sgn n * int (fst r), snd r))"

text \<open>Rounding \<open>m * b ^ e\<close> to a mantissa of \<open>p\<close> digits in base \<open>c\<close>.\<close>

definition round_scaled :: "nat \<Rightarrow> nat \<Rightarrow> nat \<Rightarrow> scaled \<Rightarrow> scaled" where
  "round_scaled c p b x =
     round_ratio c p (fst x * int b ^ nat (snd x)) (b ^ nat (- snd x))"

lemma sval_round_ratio_exact:
  assumes "1 < b" and "0 < p" and "0 < d" and "nat \<bar>m\<bar> < b ^ p"
    and x: "(of_int n / of_nat d :: rat) = of_int m * of_nat b powi t"
  shows "sval b (round_ratio b p n d) = of_int n / of_nat d"
proof -
  have B: "0 < (of_nat b :: rat) powi t" using assms(1) by (simp add: zero_less_power_int)
  have d: "0 < (of_nat d :: rat)" using assms(3) by simp
  have "(of_nat (nat \<bar>n\<bar>) / of_nat d :: rat) = \<bar>of_int n / of_nat d\<bar>"
    by (simp add: of_nat_nat)
  also have "\<dots> = of_nat (nat \<bar>m\<bar>) * of_nat b powi t"
    unfolding x using B by (simp add: abs_mult of_nat_nat)
  finally have "(of_nat (nat \<bar>n\<bar>) / of_nat d :: rat) = of_nat (nat \<bar>m\<bar>) * of_nat b powi t" .
  from round_frac_exact [OF assms(1-4) this]
  have "sval b (round_ratio b p n d) = of_int (sgn n) * (of_nat (nat \<bar>n\<bar>) / of_nat d)"
    by (simp add: sval_def round_ratio_def Let_def mult.assoc)
  also have "\<dots> = of_int (sgn n * \<bar>n\<bar>) / of_nat d" by (simp add: of_nat_nat)
  finally show ?thesis by (simp add: sgn_mult_abs)
qed

lemma ratio_of_scaled:
  assumes "0 < b"
  shows "(of_int (fst x * int b ^ nat (snd x)) / of_nat (b ^ nat (- snd x)) :: rat) = sval b x"
  using assms by (cases "0 \<le> snd x") (simp_all add: sval_def power_int_def divide_inverse power_inverse)

lemma sval_round_scaled_exact:
  assumes "1 < c" and "0 < p" and "0 < b" and "nat \<bar>m\<bar> < c ^ p"
    and "sval b x = of_int m * of_nat c powi t"
  shows "sval c (round_scaled c p b x) = sval b x"
  using sval_round_ratio_exact [OF assms(1,2) _ assms(4), of "b ^ nat (- snd x)"
      "fst x * int b ^ nat (snd x)" t] assms(3,5)
  unfolding round_scaled_def ratio_of_scaled [OF assms(3)] by simp

lemma round_scaled_mantissa:
  assumes "1 < c" and "0 < p" and "0 < b" and "fst x \<noteq> 0"
  shows "c ^ (p - 1) \<le> nat \<bar>fst (round_scaled c p b x)\<bar>"
    and "nat \<bar>fst (round_scaled c p b x)\<bar> < c ^ p"
proof -
  let ?n = "fst x * int b ^ nat (snd x)" and ?d = "b ^ nat (- snd x)"
  have n: "?n \<noteq> 0" and n': "0 < nat \<bar>?n\<bar>" and d: "0 < ?d" using assms(3,4) by simp_all
  have "nat \<bar>fst (round_scaled c p b x)\<bar> = fst (round_frac c p (nat \<bar>?n\<bar>) ?d)"
    using n by (simp add: round_scaled_def round_ratio_def Let_def abs_mult)
  then show "c ^ (p - 1) \<le> nat \<bar>fst (round_scaled c p b x)\<bar>"
    and "nat \<bar>fst (round_scaled c p b x)\<bar> < c ^ p"
    using round_frac_mantissa [OF assms(1,2) n' d] by simp_all
qed

lemma fst_round_scaled_sgn:
  assumes "1 < c" and "0 < p" and "0 < b"
  shows "sgn (fst (round_scaled c p b x)) = sgn (fst x)"
proof -
  let ?n = "fst x * int b ^ nat (snd x)" and ?d = "b ^ nat (- snd x)"
  have sgn: "sgn ?n = sgn (fst x)" using assms(3) by (simp add: sgn_mult)
  show ?thesis
  proof (cases "fst x = 0")
    case True
    then show ?thesis by (simp add: round_scaled_def round_ratio_def)
  next
    case False
    then have "0 < nat \<bar>?n\<bar>" using assms(3) by simp
    moreover have "0 < ?d" using assms(3) by simp
    ultimately have "c ^ (p - 1) \<le> fst (round_frac c p (nat \<bar>?n\<bar>) ?d)"
      using round_frac_mantissa(1) [OF assms(1,2)] by blast
    moreover have "0 < c ^ (p - 1)" using assms(1) by simp
    ultimately have "0 < fst (round_frac c p (nat \<bar>?n\<bar>) ?d)" by linarith
    then show ?thesis
      using assms(3) by (simp add: round_scaled_def round_ratio_def Let_def sgn_mult)
  qed
qed

text \<open>Rounding to \<open>p\<close> digits has a relative error of at most half a unit in the last one.\<close>

lemma round_scaled_error:
  assumes "1 < c" and "0 < p" and "0 < b"
  shows "\<bar>sval c (round_scaled c p b x) - sval b x\<bar> * (2 * of_nat c ^ (p - 1)) \<le> \<bar>sval b x\<bar>"
proof (cases "fst x = 0")
  case True
  then show ?thesis by (simp add: round_scaled_def round_ratio_def sval_def)
next
  case False
  define n where "n = fst x * int b ^ nat (snd x)"
  define d where "d = b ^ nat (- snd x)"
  define f where "f = round_frac c p (nat \<bar>n\<bar>) d"
  let ?y = "of_nat (nat \<bar>n\<bar>) / of_nat d :: rat" and ?E = "of_nat c powi round_exp c p (nat \<bar>n\<bar>) d :: rat"
  let ?v = "of_nat (fst f) * of_nat c powi snd f :: rat"
  have n: "0 < nat \<bar>n\<bar>" and d: "0 < d" using False assms(3) by (simp_all add: n_def d_def)
  have val: "sval b x = of_int n / of_nat d"
    unfolding n_def d_def by (rule ratio_of_scaled [OF assms(3), symmetric])
  have sg: "of_int n = of_int (sgn n) * (of_nat (nat \<bar>n\<bar>) :: rat)"
  proof -
    have "of_int n = (of_int (sgn n * \<bar>n\<bar>) :: rat)" by (simp only: sgn_mult_abs)
    also have "\<dots> = of_int (sgn n) * of_int \<bar>n\<bar>" by (rule of_int_mult)
    also have "(of_int \<bar>n\<bar> :: rat) = of_nat (nat \<bar>n\<bar>)" by (simp add: of_nat_nat)
    finally show ?thesis .
  qed
  have r: "sval c (round_scaled c p b x) = of_int (sgn n) * ?v"
    by (simp add: round_scaled_def round_ratio_def Let_def sval_def f_def n_def d_def mult.assoc)
  have "sval c (round_scaled c p b x) - sval b x = of_int (sgn n) * (?v - ?y)"
    unfolding r val sg by (simp add: right_diff_distrib)
  moreover have "\<bar>of_int (sgn n)\<bar> = (1 :: rat)" using n by (simp add: sgn_if)
  ultimately have "\<bar>sval c (round_scaled c p b x) - sval b x\<bar> = \<bar>?v - ?y\<bar>" by (simp add: abs_mult)
  also have "\<dots> \<le> ?E / 2"
    unfolding f_def by (rule round_frac_error [OF assms(1,2) n d])
  finally have "\<bar>sval c (round_scaled c p b x) - sval b x\<bar> * (2 * of_nat c ^ (p - 1)) \<le> ?E / 2 * (2 * of_nat c ^ (p - 1))"
    by (rule mult_right_mono) simp
  also have "\<dots> = of_nat c ^ (p - 1) * ?E" by simp
  also have "\<dots> \<le> ?y" by (rule round_exp_bounds(1) [OF assms(1,2) n d])
  also have "?y = \<bar>sval b x\<bar>" unfolding val by (simp add: of_nat_nat)
  finally show ?thesis .
qed

end
