(* ===== verification/Py_Decimal.thy ===== *)
theory Py_Decimal
  imports Py_Text Scaled_Numbers
begin

text \<open>
  Python's \<open>decimal.Decimal\<close>, as far as the code uses it: construction from text,
  conversion to text, comparison, and addition and subtraction in the default context
  (28 digits, ties to even).  A finite number keeps its exponent, as Python does, so that
  \<open>str\<close> gives the same text; there is no negative zero (the code only ever compares
  zeros).
\<close>

datatype dec = Dec (coef: int) (expo: int)

definition pair_of :: "dec \<Rightarrow> scaled" where
  "pair_of d = (coef d, expo d)"

lemma pair_of_Dec [simp]: "pair_of (Dec c e) = (c, e)"
  by (simp add: pair_of_def)

text \<open>The number a \<open>Decimal\<close> stands for.\<close>

definition dval :: "dec \<Rightarrow> rat" where
  "dval d = sval 10 (pair_of d)"

text \<open>\<open>_fix\<close>: a coefficient of more than 28 digits is rounded to 28.\<close>

definition dec_fix :: "scaled \<Rightarrow> dec" where
  "dec_fix x =
     (if \<bar>fst x\<bar> < 10 ^ 28 then Dec (fst x) (snd x)
      else let r = round_scaled 10 28 10 x in Dec (fst r) (snd r))"

instantiation dec :: "{zero, plus, minus, preorder}"
begin

definition zero_dec :: dec where
  "0 = Dec 0 0"

definition plus_dec :: "dec \<Rightarrow> dec \<Rightarrow> dec" where
  "x + y = dec_fix (ssum 10 (pair_of x) (pair_of y))"

definition minus_dec :: "dec \<Rightarrow> dec \<Rightarrow> dec" where
  "x - y = dec_fix (sdiff 10 (pair_of x) (pair_of y))"

definition less_eq_dec :: "dec \<Rightarrow> dec \<Rightarrow> bool" where
  "x \<le> y \<longleftrightarrow> \<not> sless 10 (pair_of y) (pair_of x)"

definition less_dec :: "dec \<Rightarrow> dec \<Rightarrow> bool" where
  "x < y \<longleftrightarrow> sless 10 (pair_of x) (pair_of y)"

instance
  by standard (auto simp: less_eq_dec_def less_dec_def sless_iff)

end

text \<open>Equality of \<open>Decimal\<close>s compares values; \<open>1.0\<close> and \<open>1.00\<close> are equal in Python.\<close>

definition dec_eq :: "dec \<Rightarrow> dec \<Rightarrow> bool" where
  "dec_eq x y \<longleftrightarrow> seq 10 (pair_of x) (pair_of y)"

lemma dec_less_iff: "(x::dec) < y \<longleftrightarrow> dval x < dval y"
  by (simp add: less_dec_def dval_def sless_iff)

lemma dec_le_iff: "(x::dec) \<le> y \<longleftrightarrow> dval x \<le> dval y"
  by (simp add: less_eq_dec_def dval_def sless_iff not_less)

lemma dec_eq_iff: "dec_eq x y \<longleftrightarrow> dval x = dval y"
  by (simp add: dec_eq_def dval_def seq_iff)

lemma dval_zero [simp]: "dval 0 = 0"
  by (simp add: zero_dec_def dval_def sval_def)

lemmas dec_order_simps = dec_less_iff dec_le_iff

definition dec_max :: "dec \<Rightarrow> dec \<Rightarrow> dec" where
  "dec_max x y = (if x < y then y else x)"

lemma dval_dec_max [simp]: "dval (dec_max x y) = max (dval x) (dval y)"
  by (simp add: dec_max_def dec_less_iff max_def)

subsection \<open>When context arithmetic is exact\<close>

text \<open>
  A money amount: a multiple of a ten-thousandth (the columns are \<open>Numeric(18, 4)\<close>) of
  magnitude below \<open>10 ^ 20\<close>, so that sums and differences of two of them fit the 28 digits
  of the context.
\<close>

definition money :: "dec \<Rightarrow> bool" where
  "money d \<longleftrightarrow> dval d * 10000 \<in> \<int> \<and> \<bar>dval d\<bar> < 10 ^ 20"

lemma dval_fix_exact:
  assumes "sval 10 x * 10000 \<in> \<int>" and "\<bar>sval 10 x\<bar> < 2 * 10 ^ 20"
  shows "dval (dec_fix x) = sval 10 x"
proof (cases "\<bar>fst x\<bar> < 10 ^ 28")
  case True
  then show ?thesis by (simp add: dec_fix_def dval_def)
next
  case False
  obtain m where m: "sval 10 x * 10000 = of_int m" using assms(1) by (rule Ints_cases)
  then have val: "sval 10 x = of_int m * of_nat 10 powi (- 4)"
    by (simp add: power_int_minus power_int_def field_simps)
  have "\<bar>(of_int m :: rat)\<bar> < of_int (2 * 10 ^ 24)"
    using assms(2) unfolding m [symmetric] by (simp add: abs_mult)
  then have "\<bar>m\<bar> < 2 * 10 ^ 24" by (simp only: of_int_abs [symmetric] of_int_less_iff)
  then have "nat \<bar>m\<bar> < 10 ^ 28" by simp
  then have "sval 10 (round_scaled 10 28 10 x) = sval 10 x"
    by (intro sval_round_scaled_exact [OF _ _ _ _ val]) simp_all
  then show ?thesis using False by (simp add: dec_fix_def dval_def Let_def)
qed

lemma dval_add:
  assumes "money x" and "money y"
  shows "dval (x + y) = dval x + dval y"
proof -
  let ?s = "ssum 10 (pair_of x) (pair_of y)"
  have val: "sval 10 ?s = dval x + dval y" by (simp add: dval_def)
  have "sval 10 ?s * 10000 \<in> \<int>" and "\<bar>sval 10 ?s\<bar> < 2 * 10 ^ 20"
    using assms unfolding val by (auto simp: money_def distrib_right abs_less_iff)
  then show ?thesis using val by (simp add: plus_dec_def dval_fix_exact)
qed

lemma dval_diff:
  assumes "money x" and "money y"
  shows "dval (x - y) = dval x - dval y"
proof -
  let ?s = "sdiff 10 (pair_of x) (pair_of y)"
  have val: "sval 10 ?s = dval x - dval y" by (simp add: dval_def)
  have "sval 10 ?s * 10000 \<in> \<int>" and "\<bar>sval 10 ?s\<bar> < 2 * 10 ^ 20"
    using assms unfolding val by (auto simp: money_def left_diff_distrib abs_less_iff)
  then show ?thesis using val by (simp add: minus_dec_def dval_fix_exact)
qed

lemma money_add:
  "money x \<Longrightarrow> money y \<Longrightarrow> \<bar>dval x + dval y\<bar> < 10 ^ 20 \<Longrightarrow> money (x + y)"
  using dval_add [of x y] by (simp add: money_def distrib_right)

lemma money_zero [simp]: "money 0"
  by (simp add: money_def)

subsection \<open>Text\<close>

text \<open>
  \<open>Decimal.__str__\<close>: plain notation when the exponent is not positive and at most six
  leading zeros are needed, scientific notation otherwise.
\<close>

definition zeros :: "nat \<Rightarrow> string" where
  "zeros k = replicate k (CHR ''0'')"

definition dec_str :: "dec \<Rightarrow> string" where
  "dec_str d =
     (let ds = nat_str (nat \<bar>coef d\<bar>);
          leftdigits = expo d + int (length ds);
          dotplace = (if expo d \<le> 0 \<and> - 6 < leftdigits then leftdigits else 1);
          intpart = (if dotplace \<le> 0 then ''0''
                     else if int (length ds) \<le> dotplace then ds @ zeros (nat (dotplace - int (length ds)))
                     else take (nat dotplace) ds);
          fracpart = (if dotplace \<le> 0 then ''.'' @ zeros (nat (- dotplace)) @ ds
                      else if int (length ds) \<le> dotplace then []
                      else ''.'' @ drop (nat dotplace) ds);
          ex = (if leftdigits = dotplace then []
                else ''E'' @ (if 0 \<le> leftdigits - dotplace then ''+'' else []) @ int_str (leftdigits - dotplace))
      in (if coef d < 0 then ''-'' else []) @ intpart @ fracpart @ ex)"

text \<open>
  \<open>Decimal(text)\<close>.  White space around and underscores inside the text are dropped; the
  exponent has to be within the limits of the C implementation, else the conversion is an
  \<open>InvalidOperation\<close>, here \<open>None\<close>.
\<close>

datatype pydec = Finite dec | Infinite bool | NotANumber bool

definition split_sign :: "string \<Rightarrow> int \<times> string" where
  "split_sign s =
     (if take 1 s = ''-'' then (- 1, drop 1 s)
      else if take 1 s = ''+'' then (1, drop 1 s) else (1, s))"

definition all_digits :: "string \<Rightarrow> bool" where
  "all_digits s \<longleftrightarrow> list_all is_digit s"

definition parse_exponent :: "string \<Rightarrow> int option" where
  "parse_exponent s =
     (if s = [] then Some 0
      else if hd s = CHR ''e'' \<or> hd s = CHR ''E''
      then let t = split_sign (tl s)
           in if snd t \<noteq> [] \<and> all_digits (snd t) then Some (fst t * int (digits_val (snd t))) else None
      else None)"

text \<open>Digits, optionally a point and more digits, optionally an exponent.\<close>

definition parse_unsigned :: "string \<Rightarrow> (nat \<times> int) option" where
  "parse_unsigned s =
     (let ip = takeWhile is_digit s;
          r = dropWhile is_digit s;
          fp = (if take 1 r = ''.'' then takeWhile is_digit (tl r) else []);
          r' = (if take 1 r = ''.'' then dropWhile is_digit (tl r) else r)
      in if ip = [] \<and> fp = [] then None
         else case parse_exponent r' of None \<Rightarrow> None
              | Some e \<Rightarrow> Some (digits_val (ip @ fp), e - int (length fp)))"

definition dec_range :: "nat \<Rightarrow> int \<Rightarrow> bool" where
  "dec_range n e \<longleftrightarrow> - 1999999999999999997 \<le> e
     \<and> e + int (length (nat_str n)) - 1 \<le> 999999999999999999"

definition dec_of_str :: "string \<Rightarrow> pydec option" where
  "dec_of_str s =
     (let t = split_sign (filter (\<lambda>c. c \<noteq> CHR ''_'') (py_strip s));
          l = py_lower (snd t)
      in if l = ''inf'' \<or> l = ''infinity'' then Some (Infinite (fst t < 0))
         else if take 3 l = ''nan'' \<and> all_digits (drop 3 l) then Some (NotANumber False)
         else if take 4 l = ''snan'' \<and> all_digits (drop 4 l) then Some (NotANumber True)
         else case parse_unsigned (snd t) of None \<Rightarrow> None
              | Some (n, e) \<Rightarrow>
                  if dec_range n e then Some (Finite (Dec (fst t * int n) e)) else None)"

subsection \<open>Reading back what was printed\<close>

lemma span_digits:
  assumes "all_digits ds" and "rest = [] \<or> \<not> is_digit (hd rest)"
  shows "takeWhile is_digit (ds @ rest) = ds" and "dropWhile is_digit (ds @ rest) = rest"
proof -
  have ds: "takeWhile is_digit ds = ds" "dropWhile is_digit ds = []"
    using assms(1) by (simp_all add: all_digits_def list_all_iff)
  have rest: "takeWhile is_digit rest = []" "dropWhile is_digit rest = rest"
    using assms(2) by (cases rest; simp)+
  show "takeWhile is_digit (ds @ rest) = ds" and "dropWhile is_digit (ds @ rest) = rest"
    using assms(1) ds rest by (simp_all add: takeWhile_append dropWhile_append all_digits_def list_all_iff)
qed

lemma all_digits_nat_str [simp]: "all_digits (nat_str n)"
  using nat_str_digits by (simp add: all_digits_def list_all_iff)

lemma all_digits_simps [simp]:
  "all_digits []" "all_digits (c # s) \<longleftrightarrow> is_digit c \<and> all_digits s"
  "all_digits (s @ t) \<longleftrightarrow> all_digits s \<and> all_digits t"
  by (auto simp: all_digits_def)

lemma all_digits_take: "all_digits s \<Longrightarrow> all_digits (take k s) \<and> all_digits (drop k s)"
  by (auto simp: all_digits_def list_all_iff dest: in_set_takeD in_set_dropD)

lemma all_digits_zeros [simp]: "all_digits (zeros k)"
  by (auto simp: all_digits_def list_all_iff zeros_def is_digit_def code_def)

lemma not_digit_literals [simp]:
  "\<not> is_digit (CHR ''.'')" "\<not> is_digit (CHR ''E'')" "\<not> is_digit (CHR ''e'')"
  "\<not> is_digit (CHR ''-'')" "\<not> is_digit (CHR ''+'')" "\<not> is_digit (CHR ''_'')"
  by (simp_all add: is_digit_def code_def)

definition dot_part :: "string \<Rightarrow> string" where
  "dot_part fp = (if fp = [] then [] else CHR ''.'' # fp)"

lemma parse_unsigned_parts:
  assumes ip: "all_digits ip" "ip \<noteq> []" and fp: "all_digits fp"
    and ex: "ex = [] \<or> hd ex = CHR ''e'' \<or> hd ex = CHR ''E''"
    and e: "parse_exponent ex = Some e"
  shows "parse_unsigned (ip @ dot_part fp @ ex) = Some (digits_val (ip @ fp), e - int (length fp))"
proof -
  have ex': "ex = [] \<or> \<not> is_digit (hd ex)" and nodot: "take 1 ex \<noteq> ''.''"
    using ex by (cases ex; auto)+
  have "dot_part fp @ ex = [] \<or> \<not> is_digit (hd (dot_part fp @ ex))"
    using ex' by (auto simp: dot_part_def)
  note outer = span_digits [OF ip(1) this]
  show ?thesis
  proof (cases "fp = []")
    case True
    then have "dot_part fp = []" by (simp add: dot_part_def)
    then show ?thesis
      using outer nodot e ip True by (simp add: parse_unsigned_def Let_def)
  next
    case False
    then have "dot_part fp = CHR ''.'' # fp" by (simp add: dot_part_def)
    then show ?thesis
      using outer e ip False span_digits [OF fp ex'] by (simp add: parse_unsigned_def Let_def)
  qed
qed

lemma split_sign_minus [simp]: "split_sign (CHR ''-'' # s) = (- 1, s)"
  and split_sign_plus [simp]: "split_sign (CHR ''+'' # s) = (1, s)"
  by (simp_all add: split_sign_def)

lemma split_sign_digit: "is_digit (hd s) \<Longrightarrow> s \<noteq> [] \<Longrightarrow> split_sign s = (1, s)"
  by (cases s) (auto simp: split_sign_def)

lemma hd_nat_str_digit: "is_digit (hd (nat_str n))"
  by (rule bspec [OF nat_str_digits [of n]]) simp

lemma parse_exponent_int:
  assumes "c = CHR ''e'' \<or> c = CHR ''E''"
  shows "parse_exponent (c # (if 0 \<le> i then ''+'' else []) @ int_str i) = Some i"
  using assms
  by (auto simp: parse_exponent_def int_str_def split_sign_digit [OF hd_nat_str_digit nat_str_nonempty])

text \<open>The characters a number is written with: no white space, no underscore.\<close>

definition num_char :: "char \<Rightarrow> bool" where
  "num_char c \<longleftrightarrow> is_digit c \<or> c \<in> set ''.eE+-''"

lemma num_char_plain: "num_char c \<Longrightarrow> \<not> py_isspace c \<and> c \<noteq> CHR ''_''"
  by (auto simp: num_char_def is_digit_def py_isspace_def code_def)

lemma num_chars_digits [simp]: "all_digits s \<Longrightarrow> list_all num_char s"
  by (auto simp: all_digits_def num_char_def list_all_iff)

lemma lower_digit: "is_digit c \<Longrightarrow> lower_char c = c"
  by (auto simp: is_digit_def lower_char_def)

text \<open>
  A number as both \<open>Decimal\<close> and C's \<open>strtod\<close> read it: an optional minus sign, then
  digits with an optional point and exponent, standing for \<open>c * 10 ^ e\<close>.
\<close>

definition number_text :: "string \<Rightarrow> int \<Rightarrow> int \<Rightarrow> bool" where
  "number_text s c e \<longleftrightarrow>
     (\<exists>sg body n. s = sg @ body \<and> (sg = [] \<or> sg = ''-'') \<and> body \<noteq> [] \<and> is_digit (hd body)
        \<and> list_all num_char body \<and> parse_unsigned body = Some (n, e)
        \<and> c = (if sg = [] then 1 else - 1) * int n)"

lemma number_textI:
  assumes "sg = [] \<or> sg = ''-''" and "all_digits ip" "ip \<noteq> []" and "all_digits fp"
    and "ex = [] \<or> hd ex = CHR ''e'' \<or> hd ex = CHR ''E''" and "parse_exponent ex = Some e'"
    and "list_all num_char ex"
  shows "number_text (sg @ ip @ dot_part fp @ ex)
    ((if sg = [] then 1 else - 1) * int (digits_val (ip @ fp))) (e' - int (length fp))"
proof -
  let ?body = "ip @ dot_part fp @ ex"
  have "?body \<noteq> []" and "is_digit (hd ?body)" using assms(2,3) by (cases ip; simp)+
  moreover have "list_all num_char ?body"
    using assms by (simp add: dot_part_def) (simp add: num_char_def)
  ultimately show ?thesis
    using parse_unsigned_parts [OF assms(2-6)] assms(1) unfolding number_text_def by blast
qed

lemma number_text_chars:
  assumes "number_text s c e"
  shows "\<forall>x \<in> set s. \<not> py_isspace x \<and> x \<noteq> CHR ''_''"
proof -
  have "list_all num_char s" using assms by (auto simp: number_text_def num_char_def)
  then show ?thesis using num_char_plain by (auto simp: list_all_iff)
qed

lemma dec_of_str_number:
  assumes "number_text s c e" and "dec_range (nat \<bar>c\<bar>) e"
  shows "dec_of_str s = Some (Finite (Dec c e))"
proof -
  obtain sg body n where s: "s = sg @ body" "sg = [] \<or> sg = ''-''"
    and body: "body \<noteq> []" "is_digit (hd body)" and parse: "parse_unsigned body = Some (n, e)"
    and c: "c = (if sg = [] then 1 else - 1) * int n"
    using assms(1) unfolding number_text_def by blast
  have "nat \<bar>c\<bar> = n" using c by (simp split: if_splits)
  then have range: "dec_range n e" using assms(2) by simp
  have "filter (\<lambda>c. c \<noteq> CHR ''_'') (py_strip s) = s"
    using number_text_chars [OF assms(1)] by (simp add: py_strip_def strip_by_id filter_id_conv)
  moreover have sign: "split_sign s = (if sg = [] then 1 else - 1, body)"
    using s body split_sign_digit by auto
  moreover have "py_lower body \<noteq> []" and low: "hd (py_lower body) = hd body"
    using body by (simp_all add: py_lower_def hd_map lower_digit)
  moreover have "hd body \<noteq> CHR ''i''" and "hd body \<noteq> CHR ''n''" and "hd body \<noteq> CHR ''s''"
    using body(2) by (auto simp: is_digit_def code_def)
  ultimately show ?thesis
    using parse range c by (cases "py_lower body") (auto simp: dec_of_str_def Let_def)
qed

lemma digits_val_zeros_append [simp]: "digits_val (zeros k @ s) = digits_val s"
  by (simp add: digits_val_append zeros_def)

lemma digits_val_zero_Cons [simp]: "digits_val (CHR ''0'' # s) = digits_val s"
  using digits_val_zeros_append [of 1 s] by (simp add: zeros_def)

lemma length_zeros [simp]: "length (zeros k) = k"
  by (simp add: zeros_def)

lemma is_digit_zero [simp]: "is_digit (CHR ''0'')"
  by (simp add: is_digit_def code_def)

lemma num_char_int_str: "list_all num_char (int_str i)"
  by (simp add: int_str_def) (simp add: num_char_def)

lemma dec_str_parts:
  fixes c e :: int
  defines "n \<equiv> nat \<bar>c\<bar>"
  obtains ip fp ex e' where
    "dec_str (Dec c e) = (if c < 0 then ''-'' else []) @ ip @ dot_part fp @ ex"
    "all_digits ip" "ip \<noteq> []" "all_digits fp" "digits_val (ip @ fp) = n"
    "ex = [] \<or> hd ex = CHR ''e'' \<or> hd ex = CHR ''E''" "parse_exponent ex = Some e'"
    "e' - int (length fp) = e" "list_all num_char ex"
proof -
  let ?ds = "nat_str n"
  let ?left = "e + int (length ?ds)"
  let ?dot = "if e \<le> 0 \<and> - 6 < ?left then ?left else 1"
  let ?ex = "if ?left = ?dot then []
    else ''E'' @ (if 0 \<le> ?left - ?dot then ''+'' else []) @ int_str (?left - ?dot)"
  have ds: "all_digits ?ds" "?ds \<noteq> []" "1 \<le> length ?ds"
    by (simp_all add: Suc_le_eq)
  have pe: "parse_exponent ?ex = Some (?left - ?dot)"
    using parse_exponent_int [of "CHR ''E''" "?left - ?dot"] by (simp add: parse_exponent_def)
  have ex: "?ex = [] \<or> hd ?ex = CHR ''e'' \<or> hd ?ex = CHR ''E''" by simp
  have exc: "list_all num_char ?ex" using num_char_int_str by (simp add: num_char_def)
  consider (small) "?dot \<le> 0" | (whole) "0 < ?dot" "int (length ?ds) \<le> ?dot"
    | (inner) "0 < ?dot" "?dot < int (length ?ds)" by linarith
  then show thesis
  proof cases
    case small
    then have "?dot = ?left" by (simp split: if_splits)
    with small show thesis
      using ds pe ex exc
      by (intro that [of "''0''" "zeros (nat (- ?dot)) @ ?ds" ?ex "?left - ?dot"])
        (simp_all add: dec_str_def Let_def n_def [symmetric] dot_part_def)
  next
    case whole
    then have z: "?dot = int (length ?ds)" using ds(3) by (auto split: if_splits)
    then have "zeros (nat (?dot - int (length ?ds))) = []" by (simp only:) (simp add: zeros_def)
    with whole z show thesis
      using ds pe ex exc
      by (intro that [of ?ds "[]" ?ex "?left - ?dot"])
        (simp_all add: dec_str_def Let_def n_def [symmetric] dot_part_def del: diff_self)
  next
    case inner
    let ?k = "nat ?dot"
    have k: "0 < ?k" "?k < length ?ds" using inner by linarith+
    have split: "all_digits (take ?k ?ds)" "all_digits (drop ?k ?ds)" using all_digits_take ds by blast+
    from inner k split show thesis
      using ds pe ex exc
      by (intro that [of "take ?k ?ds" "drop ?k ?ds" ?ex "?left - ?dot"])
        (simp_all add: dec_str_def Let_def n_def [symmetric] dot_part_def)
  qed
qed

lemma number_text_dec_str: "number_text (dec_str d) (coef d) (expo d)"
proof -
  obtain c e where d: "d = Dec c e" by (cases d)
  obtain ip fp ex e' where
    eq: "dec_str (Dec c e) = (if c < 0 then ''-'' else []) @ ip @ dot_part fp @ ex" and
    ip: "all_digits ip" "ip \<noteq> []" and fp: "all_digits fp" and
    v: "digits_val (ip @ fp) = nat \<bar>c\<bar>" and
    ex: "ex = [] \<or> hd ex = CHR ''e'' \<or> hd ex = CHR ''E''" "parse_exponent ex = Some e'" and
    e: "e' - int (length fp) = e" and exc: "list_all num_char ex"
    by (rule dec_str_parts)
  have "number_text ((if c < 0 then ''-'' else []) @ ip @ dot_part fp @ ex)
      ((if (if c < 0 then ''-'' else []) = [] then 1 else - 1) * int (digits_val (ip @ fp)))
      (e' - int (length fp))"
    by (rule number_textI [OF _ ip fp ex exc]) simp
  then show ?thesis by (simp add: d eq v e split: if_splits)
qed

text \<open>\<open>Decimal(str(d))\<close> is \<open>d\<close>, with the same exponent.\<close>

lemma dec_of_str_dec_str:
  "dec_range (nat \<bar>coef d\<bar>) (expo d) \<Longrightarrow> dec_of_str (dec_str d) = Some (Finite d)"
  using dec_of_str_number [OF number_text_dec_str] by simp

lemma length_nat_str: "n < 10 ^ Suc k \<Longrightarrow> length (nat_str n) \<le> Suc k"
proof (induction k arbitrary: n)
  case 0
  then show ?case by (simp add: nat_str.simps [of n])
next
  case (Suc k)
  show ?case
  proof (cases "n < 10")
    case True
    then show ?thesis by (simp add: nat_str.simps [of n])
  next
    case False
    have "n div 10 < 10 ^ Suc k" using Suc.prems by (simp add: less_mult_imp_div_less)
    from Suc.IH [OF this] False show ?thesis by (simp add: nat_str.simps [of n])
  qed
qed

lemma nat_str_less: "n < 10 ^ length (nat_str n)"
proof (induction n rule: nat_str.induct)
  case (1 n)
  show ?case
  proof (cases "n < 10")
    case True
    then show ?thesis by (simp add: nat_str.simps [of n])
  next
    case False
    then have "n div 10 < 10 ^ length (nat_str (n div 10))" using 1 by simp
    then have "n div 10 + 1 \<le> 10 ^ length (nat_str (n div 10))" by simp
    then have "(n div 10 + 1) * 10 \<le> 10 ^ length (nat_str (n div 10)) * 10" by (rule mult_le_mono1)
    moreover have "n < (n div 10 + 1) * 10" by simp
    ultimately have "n < 10 ^ length (nat_str (n div 10)) * 10" by (rule order.strict_trans2 [rotated])
    with False show ?thesis by (simp add: nat_str.simps [of n])
  qed
qed

lemma length_nat_str_eq:
  assumes "10 ^ k \<le> n" and "n < 10 ^ Suc k"
  shows "length (nat_str n) = Suc k"
proof (rule antisym)
  show "length (nat_str n) \<le> Suc k" using assms(2) by (rule length_nat_str)
  have "(10::nat) ^ k < 10 ^ length (nat_str n)"
    using assms(1) nat_str_less [of n] by (rule le_less_trans)
  then show "Suc k \<le> length (nat_str n)" by simp
qed

lemma dec_range_small:
  assumes "n < 10 ^ 28" and "- 1000000 \<le> e" and "e \<le> 1000000"
  shows "dec_range n e"
  using assms length_nat_str [of n 27] by (simp add: dec_range_def)

end
