(* ===== verification/Py_Json.thy ===== *)
theory Py_Json
  imports Py_Decimal "HOL-Library.Multiset"
begin

text \<open>
  The JSON values that policies, intents, metadata and audit payloads are made of, as
  Python holds them, and the standard library functions the code applies to them:
  \<open>json.dumps\<close> with sorted keys, \<open>str\<close> and \<open>==\<close>.

  A dictionary is an association list in insertion order with distinct keys
  (\<open>json_ok\<close>).  A float is represented by its \<open>repr\<close>, which identifies it.
\<close>

datatype json =
    JNull
  | JBool bool
  | JInt int
  | JFloat string
  | JStr string
  | JArr "json list"
  | JObj "(string \<times> json) list"

subsection \<open>Serialisation\<close>

definition hex_digit :: "nat \<Rightarrow> char" where
  "hex_digit d = char_of (if d < 10 then 48 + d else 87 + d)"

definition hex2 :: "nat \<Rightarrow> string" where
  "hex2 n = [hex_digit (n div 16), hex_digit (n mod 16)]"

text \<open>
  One character of a JSON string.  With \<open>ensure_ascii=False\<close> only the quote, the backslash
  and the control characters below 32 are escaped; with the default \<open>ensure_ascii=True\<close>
  everything outside the printable ASCII range is.
\<close>

definition short_escape :: "char \<Rightarrow> string option" where
  "short_escape c =
     (if code c = 34 then Some [CHR 0x5C, CHR 0x22]
      else if code c = 92 then Some [CHR 0x5C, CHR 0x5C]
      else if code c = 10 then Some [CHR 0x5C, CHR ''n'']
      else if code c = 13 then Some [CHR 0x5C, CHR ''r'']
      else if code c = 9 then Some [CHR 0x5C, CHR ''t'']
      else if code c = 12 then Some [CHR 0x5C, CHR ''f'']
      else if code c = 8 then Some [CHR 0x5C, CHR ''b'']
      else None)"

definition escape_char :: "bool \<Rightarrow> char \<Rightarrow> string" where
  "escape_char ensure_ascii c =
     (case short_escape c of Some s \<Rightarrow> s
      | None \<Rightarrow> if code c < 32 \<or> (ensure_ascii \<and> 127 \<le> code c)
               then CHR 0x5C # ''u00'' @ hex2 (code c) else [c])"

definition json_string :: "bool \<Rightarrow> string \<Rightarrow> string" where
  "json_string ascii s = CHR 0x22 # concat (map (escape_char ascii) s) @ [CHR 0x22]"

definition json_float :: "string \<Rightarrow> string" where
  "json_float s =
     (if s = ''nan'' then ''NaN'' else if s = ''inf'' then ''Infinity''
      else if s = ''-inf'' then ''-Infinity'' else s)"

text \<open>\<open>json.dumps(v, sort_keys=True, separators=(isep, ksep), ensure_ascii=ascii)\<close>.\<close>

primrec dumps :: "bool \<Rightarrow> string \<Rightarrow> string \<Rightarrow> json \<Rightarrow> string" where
  "dumps ascii isep ksep JNull = ''null''"
| "dumps ascii isep ksep (JBool b) = (if b then ''true'' else ''false'')"
| "dumps ascii isep ksep (JInt i) = int_str i"
| "dumps ascii isep ksep (JFloat s) = json_float s"
| "dumps ascii isep ksep (JStr s) = json_string ascii s"
| "dumps ascii isep ksep (JArr vs) =
     ''['' @ py_join isep (map (dumps ascii isep ksep) vs) @ '']''"
| "dumps ascii isep ksep (JObj kvs) =
     ''{'' @ py_join isep
        (map (\<lambda>(k, t). json_string ascii k @ ksep @ t)
           (sort_key fst (map (map_prod id (dumps ascii isep ksep)) kvs))) @ ''}''"

text \<open>The default separators.\<close>

definition json_dumps :: "json \<Rightarrow> string" where
  "json_dumps v = dumps True '', '' '': '' v"

definition canonical_json :: "json \<Rightarrow> string" where
  "canonical_json v = dumps False '','' '':'' v"

subsection \<open>str() and repr()\<close>

definition repr_char :: "nat \<Rightarrow> char \<Rightarrow> string" where
  "repr_char quote c =
     (if code c = quote \<or> code c = 92 then [CHR 0x5C, c]
      else if code c = 9 then [CHR 0x5C, CHR ''t'']
      else if code c = 10 then [CHR 0x5C, CHR ''n'']
      else if code c = 13 then [CHR 0x5C, CHR ''r'']
      else if code c < 32 \<or> (127 \<le> code c \<and> code c \<le> 160) \<or> code c = 173
      then [CHR 0x5C, CHR ''x''] @ hex2 (code c)
      else [c])"

definition repr_str :: "string \<Rightarrow> string" where
  "repr_str s =
     (let q = (if CHR 0x27 \<in> set s \<and> CHR 0x22 \<notin> set s then 34 else 39)
      in char_of q # concat (map (repr_char q) s) @ [char_of q])"

primrec py_repr :: "json \<Rightarrow> string" where
  "py_repr JNull = ''None''"
| "py_repr (JBool b) = (if b then ''True'' else ''False'')"
| "py_repr (JInt i) = int_str i"
| "py_repr (JFloat s) = s"
| "py_repr (JStr s) = repr_str s"
| "py_repr (JArr vs) = ''['' @ py_join '', '' (map py_repr vs) @ '']''"
| "py_repr (JObj kvs) =
     ''{'' @ py_join '', '' (map (\<lambda>(k, t). repr_str k @ '': '' @ t) (map (map_prod id py_repr) kvs)) @ ''}''"

definition py_str :: "json \<Rightarrow> string" where
  "py_str v = (case v of JStr s \<Rightarrow> s | _ \<Rightarrow> py_repr v)"

subsection \<open>Equality\<close>

text \<open>Python compares \<open>bool\<close>, \<open>int\<close> and \<open>float\<close> by value, dictionaries without order.\<close>

datatype pynum = NFinite scaled | NInfinite bool | NNan

definition float_num :: "string \<Rightarrow> pynum" where
  "float_num s =
     (case dec_of_str s of
        Some (Finite d) \<Rightarrow> NFinite (round_scaled 2 53 10 (pair_of d))
      | Some (Infinite neg) \<Rightarrow> NInfinite neg
      | _ \<Rightarrow> NNan)"

fun json_num :: "json \<Rightarrow> pynum option" where
  "json_num (JBool b) = Some (NFinite (if b then 1 else 0, 0))"
| "json_num (JInt i) = Some (NFinite (i, 0))"
| "json_num (JFloat s) = Some (float_num s)"
| "json_num _ = None"

fun num_eq :: "pynum \<Rightarrow> pynum \<Rightarrow> bool" where
  "num_eq (NFinite x) (NFinite y) = seq 2 x y"
| "num_eq (NInfinite x) (NInfinite y) = (x = y)"
| "num_eq _ _ = False"

definition num_eq_json :: "pynum \<Rightarrow> json \<Rightarrow> bool" where
  "num_eq_json x w = (case json_num w of None \<Rightarrow> False | Some y \<Rightarrow> num_eq x y)"

primrec py_eq :: "json \<Rightarrow> json \<Rightarrow> bool" where
  "py_eq JNull w = (w = JNull)"
| "py_eq (JBool b) w = num_eq_json (NFinite (if b then 1 else 0, 0)) w"
| "py_eq (JInt i) w = num_eq_json (NFinite (i, 0)) w"
| "py_eq (JFloat s) w = num_eq_json (float_num s) w"
| "py_eq (JStr s) w = (w = JStr s)"
| "py_eq (JArr vs) w =
     (case w of JArr ws \<Rightarrow> length vs = length ws \<and> list_all (\<lambda>(f, x). f x) (zip (map py_eq vs) ws)
      | _ \<Rightarrow> False)"
| "py_eq (JObj kvs) w =
     (case w of JObj kws \<Rightarrow> length kvs = length kws
        \<and> list_all (\<lambda>(k, f). case map_of kws k of None \<Rightarrow> False | Some x \<Rightarrow> f x)
            (map (map_prod id py_eq) kvs)
      | _ \<Rightarrow> False)"

text \<open>\<open>d.get(key, default)\<close> and \<open>key in d\<close> on the items of a dictionary.\<close>

definition dict_get :: "(string \<times> json) list \<Rightarrow> string \<Rightarrow> json \<Rightarrow> json" where
  "dict_get d k dflt = (case map_of d k of None \<Rightarrow> dflt | Some v \<Rightarrow> v)"

definition dict_has :: "(string \<times> json) list \<Rightarrow> string \<Rightarrow> bool" where
  "dict_has d k \<longleftrightarrow> k \<in> fst ` set d"

subsection \<open>Canonical text and key order\<close>

text \<open>\<open>json_norm\<close> sorts the keys of every dictionary inside a value.\<close>

primrec json_norm :: "json \<Rightarrow> json" where
  "json_norm JNull = JNull"
| "json_norm (JBool b) = JBool b"
| "json_norm (JInt i) = JInt i"
| "json_norm (JFloat s) = JFloat s"
| "json_norm (JStr s) = JStr s"
| "json_norm (JArr vs) = JArr (map json_norm vs)"
| "json_norm (JObj kvs) = JObj (sort_key fst (map (map_prod id json_norm) kvs))"

text \<open>The printer without sorting; \<open>canonical_json\<close> is this printer on the normal form.\<close>

primrec render :: "json \<Rightarrow> string" where
  "render JNull = ''null''"
| "render (JBool b) = (if b then ''true'' else ''false'')"
| "render (JInt i) = int_str i"
| "render (JFloat s) = json_float s"
| "render (JStr s) = json_string False s"
| "render (JArr vs) = ''['' @ py_join '','' (map render vs) @ '']''"
| "render (JObj kvs) =
     ''{'' @ py_join '',''
        (map (\<lambda>(k, t). json_string False k @ '':'' @ t) (map (map_prod id render) kvs)) @ ''}''"

lemma sort_key_map_snd:
  fixes f :: "'b \<Rightarrow> 'c" and kvs :: "('a::linorder \<times> 'b) list"
  shows "sort_key fst (map (map_prod id f) kvs) = map (map_prod id f) (sort_key fst kvs)"
proof -
  have ins: "insort_key fst (map_prod id f x) (map (map_prod id f) xs)
      = map (map_prod id f) (insort_key fst x xs)" for x xs
    by (induction xs) auto
  show ?thesis
  proof (induction kvs)
    case (Cons kv kvs)
    then show ?case by (simp only: list.map sort_key_simps ins)
  qed simp
qed

lemma canonical_render: "canonical_json v = render (json_norm v)"
proof (induction v)
  case (JArr vs)
  then have "map (dumps False '','' '':'') vs = map (render \<circ> json_norm) vs"
    by (simp add: canonical_json_def)
  then show ?case
    by (simp only: canonical_json_def dumps.simps render.simps json_norm.simps map_map)
next
  case (JObj kvs)
  have "map (map_prod id (dumps False '','' '':'')) kvs
      = map (map_prod id render) (map (map_prod id json_norm) kvs)"
    using JObj by (force simp: canonical_json_def)
  then show ?case
    by (simp only: canonical_json_def dumps.simps render.simps json_norm.simps sort_key_map_snd)
qed (simp_all add: canonical_json_def)

subsection \<open>Canonical text determines the value\<close>

text \<open>
  Well-formed values: keys are distinct, and the text of a float is a \<open>repr\<close> (it has a
  point or an exponent, or is one of the three special values), so it is not the text of
  an integer.
\<close>

definition float_text :: "string \<Rightarrow> bool" where
  "float_text s \<longleftrightarrow> s \<in> {''nan'', ''inf'', ''-inf''}
     \<or> (list_all num_char s \<and> (CHR ''.'' \<in> set s \<or> CHR ''e'' \<in> set s))"

primrec json_ok :: "json \<Rightarrow> bool" where
  "json_ok JNull = True"
| "json_ok (JBool b) = True"
| "json_ok (JInt i) = True"
| "json_ok (JFloat s) = float_text s"
| "json_ok (JStr s) = True"
| "json_ok (JArr vs) = list_all id (map json_ok vs)"
| "json_ok (JObj kvs) = (distinct (map fst kvs) \<and> list_all snd (map (map_prod id json_ok) kvs))"

fun atom :: "json \<Rightarrow> bool" where
  "atom (JStr s) = False"
| "atom (JArr vs) = False"
| "atom (JObj kvs) = False"
| "atom _ = True"

text \<open>A character that can follow a value inside a list or dictionary, and the end of the text.\<close>

definition closes :: "string \<Rightarrow> bool" where
  "closes r \<longleftrightarrow> r = [] \<or> hd r \<in> set '',}]''"

lemma num_char_no_close: "list_all num_char s \<Longrightarrow> \<forall>c \<in> set s. c \<notin> set '',}]''"
  by (auto simp: list_all_iff num_char_def is_digit_def code_def)

lemma int_str_num_char: "list_all num_char (int_str i)"
  by (simp add: int_str_def) (simp add: num_char_def)

lemma int_str_chars: "c \<in> set (int_str i) \<Longrightarrow> is_digit c \<or> c = CHR ''-''"
  using nat_str_digits by (auto simp: int_str_def split: if_splits)

lemma num_char_letters [simp]:
  "\<not> num_char (CHR ''n'')" "\<not> num_char (CHR ''N'')" "\<not> num_char (CHR ''I'')"
  "\<not> num_char (CHR ''t'')" "\<not> num_char (CHR ''f'')" "\<not> num_char (CHR ''u'')"
  by (simp_all add: num_char_def is_digit_def code_def)

lemma json_float_cases:
  assumes "float_text s"
  obtains (special) "(s, json_float s) \<in> {(''nan'', ''NaN''), (''inf'', ''Infinity''), (''-inf'', ''-Infinity'')}"
    | (plain) "json_float s = s" "list_all num_char s" "CHR ''.'' \<in> set s \<or> CHR ''e'' \<in> set s" "s \<noteq> []"
proof (cases "s \<in> {''nan'', ''inf'', ''-inf''}")
  case True
  then show thesis using special by (auto simp: json_float_def)
next
  case False
  then have "json_float s = s" by (simp add: json_float_def)
  moreover have "s \<noteq> []" using False assms by (auto simp: float_text_def)
  ultimately show thesis using False assms plain by (auto simp: float_text_def)
qed

lemma atom_no_close:
  assumes "atom v" and "json_ok v"
  shows "\<forall>c \<in> set (render v). c \<notin> set '',}]''"
proof (cases v)
  case (JInt i)
  then show ?thesis using num_char_no_close [OF int_str_num_char] by simp
next
  case (JFloat s)
  with assms have "float_text s" by simp
  then show ?thesis
  proof (cases rule: json_float_cases)
    case special
    then show ?thesis using JFloat by auto
  next
    case plain
    then show ?thesis using JFloat num_char_no_close by simp
  qed
qed (use assms in auto)

lemma float_not_int:
  assumes "float_text s"
  shows "json_float s \<noteq> int_str i"
  using assms
proof (cases rule: json_float_cases)
  case special
  show ?thesis
  proof
    assume eq: "json_float s = int_str i"
    have "list_all num_char (json_float s)" unfolding eq by (rule int_str_num_char)
    with special show False by auto
  qed
next
  case plain
  then show ?thesis using int_str_chars [of _ i] not_digit_literals by fastforce
qed

lemma float_inj:
  assumes "float_text s" and "float_text t" and "json_float s = json_float t"
  shows "s = t"
  using assms(1)
proof (cases rule: json_float_cases)
  case special
  note s = this
  from assms(2) show ?thesis
  proof (cases rule: json_float_cases)
    case special
    with s assms(3) show ?thesis by auto
  next
    case plain
    with s assms(3) have "list_all num_char (json_float s)" by simp
    with s show ?thesis by auto
  qed
next
  case plain
  note s = this
  from assms(2) show ?thesis
  proof (cases rule: json_float_cases)
    case special
    from s assms(3) have "list_all num_char (json_float t)" by simp
    with special show ?thesis by auto
  next
    case plain
    with s assms(3) show ?thesis by simp
  qed
qed

lemma atom_hd:
  assumes "atom v" and "json_ok v"
  shows "render v \<noteq> []" and "hd (render v) \<notin> {CHR 0x22, CHR ''['', CHR ''{'', CHR '']''}"
proof -
  have num: "hd s \<notin> {CHR 0x22, CHR ''['', CHR ''{'', CHR '']''}" if "list_all num_char s" "s \<noteq> []" for s
    using that by (cases s) (auto simp: num_char_def is_digit_def code_def)
  have int: "int_str i \<noteq> []" for i by (simp add: int_str_def)
  have fl: "json_float s \<noteq> [] \<and> hd (json_float s) \<notin> {CHR 0x22, CHR ''['', CHR ''{'', CHR '']''}"
    if "float_text s" for s
    using that
  proof (cases rule: json_float_cases)
    case special
    then show ?thesis by auto
  next
    case plain
    then show ?thesis using num by simp
  qed
  show "render v \<noteq> []" and "hd (render v) \<notin> {CHR 0x22, CHR ''['', CHR ''{'', CHR '']''}"
    using assms num [OF int_str_num_char int] int fl by (cases v; auto)+
qed

lemma atom_render_inj:
  assumes "atom v" "json_ok v" "atom w" "json_ok w" and eq: "render v = render w"
  shows "v = w"
proof -
  have kw: "list_all num_char (render u) \<or> hd (render u) \<in> set ''NI-''" if "atom u" "json_ok u"
    "u \<noteq> JNull" "\<And>b. u \<noteq> JBool b" for u
    using that int_str_num_char by (cases u) (auto elim: json_float_cases)
  have k: "\<not> (list_all num_char s \<or> hd s \<in> set ''NI-'')"
    if "s \<in> {''null'', ''true'', ''false''}" for s using that by auto
  show ?thesis
    using assms kw [of v] kw [of w] k float_inj float_not_int float_not_int [symmetric]
    by (cases v; cases w) (auto split: if_splits)
qed

lemma hex_digit_inj: "a < 16 \<Longrightarrow> b < 16 \<Longrightarrow> hex_digit a = hex_digit b \<Longrightarrow> a = b"
proof -
  assume a: "a < 16" and b: "b < 16" and "hex_digit a = hex_digit b"
  then have "code (hex_digit a) = code (hex_digit b)" by simp
  with a b show "a = b" by (auto simp: hex_digit_def split: if_splits)
qed

lemma hex2_inj:
  assumes "m < 256" and "n < 256" and "hex2 m @ x = hex2 n @ y"
  shows "m = n \<and> x = y"
proof -
  have "m div 16 = n div 16" and "m mod 16 = n mod 16" and "x = y"
    using assms hex_digit_inj [of "m div 16" "n div 16"] hex_digit_inj [of "m mod 16" "n mod 16"]
    by (auto simp: hex2_def)
  then show ?thesis by (metis div_mult_mod_eq)
qed

lemma char_eq_code: "c = d \<longleftrightarrow> code c = code d"
  by simp

text \<open>The escapes: each starts with a backslash followed by a letter of its own.\<close>

lemma short_escape_inj:
  assumes "short_escape c = Some (a # x # s)" and "short_escape d = Some (a' # x # t)"
  shows "c = d \<and> s = [] \<and> t = []"
  using assms unfolding short_escape_def
  by (auto simp: char_eq_code [of c d] simp del: code_eq_iff split: if_splits)

lemma short_escape_form:
  "short_escape c = Some s \<Longrightarrow> \<exists>x. s = [CHR 0x5C, x] \<and> x \<noteq> CHR ''u''"
  by (auto simp: short_escape_def split: if_splits)

lemma short_escape_None:
  "short_escape c = None \<Longrightarrow> c \<noteq> CHR 0x22 \<and> c \<noteq> CHR 0x5C"
  by (auto simp: short_escape_def code_def split: if_splits)

lemma escape_char_cases:
  obtains (short) x where "escape_char False c = [CHR 0x5C, x]" "x \<noteq> CHR ''u''"
      "short_escape c = Some [CHR 0x5C, x]"
    | (hex) "escape_char False c = CHR 0x5C # ''u00'' @ hex2 (code c)"
    | (plain) "escape_char False c = [c]" "c \<noteq> CHR 0x22" "c \<noteq> CHR 0x5C"
proof (cases "short_escape c")
  case None
  then show thesis using hex plain short_escape_None [of c]
    by (cases "code c < 32") (auto simp: escape_char_def)
next
  case (Some s)
  then show thesis using short short_escape_form [OF Some] by (auto simp: escape_char_def)
qed

lemma escape_char_hd: "escape_char False c \<noteq> [] \<and> hd (escape_char False c) \<noteq> CHR 0x22"
  by (cases c rule: escape_char_cases) auto

lemma escape_char_inj:
  assumes "escape_char False c @ x = escape_char False d @ y"
  shows "c = d \<and> x = y"
proof (cases c rule: escape_char_cases)
  case (short a)
  note c = this
  show ?thesis
  proof (cases d rule: escape_char_cases)
    case (short b)
    with c assms have "a = b" "x = y" by auto
    then show ?thesis using c short short_escape_inj [of c "CHR 0x5C" a "[]" d "CHR 0x5C" "[]"] by simp
  qed (use c assms in auto)
next
  case hex
  note c = this
  show ?thesis
  proof (cases d rule: escape_char_cases)
    case hex
    with c assms have "hex2 (code c) @ x = hex2 (code d) @ y" by simp
    then have "code c = code d \<and> x = y" by (intro hex2_inj) simp_all
    then show ?thesis by simp
  qed (use c assms in auto)
next
  case plain
  note c = this
  show ?thesis by (cases d rule: escape_char_cases) (use c assms in auto)
qed

lemma Cons_append_hd: "x # xs = ys @ zs \<Longrightarrow> ys \<noteq> [] \<Longrightarrow> hd ys = x"
  by (cases ys) auto

lemma escaped_inj:
  assumes "concat (map (escape_char False) s) @ CHR 0x22 # x = concat (map (escape_char False) t) @ CHR 0x22 # y"
  shows "s = t \<and> x = y"
  using assms
proof (induction s arbitrary: t)
  case Nil
  show ?case
  proof (cases t)
    case Nil
    with \<open>concat (map (escape_char False) []) @ CHR 0x22 # x = _\<close> show ?thesis by simp
  next
    case (Cons d t')
    with Nil have "CHR 0x22 # x = escape_char False d
        @ concat (map (escape_char False) t') @ CHR 0x22 # y" by simp
    then have False using Cons_append_hd escape_char_hd by metis
    then show ?thesis ..
  qed
next
  case (Cons c s)
  show ?case
  proof (cases t)
    case Nil
    with Cons.prems have "CHR 0x22 # y = escape_char False c
        @ concat (map (escape_char False) s) @ CHR 0x22 # x" by simp
    then have False using Cons_append_hd escape_char_hd by metis
    then show ?thesis ..
  next
    case (Cons d t')
    with Cons.prems have
      "escape_char False c @ concat (map (escape_char False) s) @ CHR 0x22 # x
       = escape_char False d @ concat (map (escape_char False) t') @ CHR 0x22 # y" by simp
    from escape_char_inj [OF this] Cons.IH [of t'] Cons show ?thesis by simp
  qed
qed

lemma json_string_inj:
  "json_string False s @ x = json_string False t @ y \<Longrightarrow> s = t \<and> x = y"
  using escaped_inj [of s x t y] by (simp add: json_string_def)

text \<open>\<open>decodes f v\<close>: the text of \<open>v\<close> cannot be mistaken for that of another value, whatever follows.\<close>

definition decodes :: "json \<Rightarrow> bool" where
  "decodes v \<longleftrightarrow> (\<forall>w r s. json_ok w \<longrightarrow> closes r \<longrightarrow> closes s
     \<longrightarrow> render v @ r = render w @ s \<longrightarrow> v = w \<and> r = s)"

lemma decodesD:
  "decodes v \<Longrightarrow> json_ok w \<Longrightarrow> closes r \<Longrightarrow> closes s \<Longrightarrow> render v @ r = render w @ s \<Longrightarrow> v = w \<and> r = s"
  by (simp add: decodes_def)

lemma py_join_cons: "py_join sep (s # ss) = s @ concat (map (\<lambda>t. sep @ t) ss)"
  by (induction ss arbitrary: s) auto

lemma closesI [simp]: "closes (CHR '','' # r)" "closes (CHR '']'' # r)" "closes (CHR ''}'' # r)" "closes []"
  by (simp_all add: closes_def)

text \<open>The rest of a list after its first element, for any kind of element.\<close>

lemma tail_inj:
  assumes "\<forall>a \<in> set as. \<forall>b r s. ok b \<longrightarrow> closes r \<longrightarrow> closes s \<longrightarrow> f a @ r = f b @ s \<longrightarrow> a = b \<and> r = s"
    and "\<forall>b \<in> set bs. ok b" and "z \<in> set '']}''"
    and "concat (map (\<lambda>a. '','' @ f a) as) @ z # r = concat (map (\<lambda>a. '','' @ f a) bs) @ z # s"
  shows "as = bs \<and> r = s"
  using assms
proof (induction as arbitrary: bs)
  case Nil
  then show ?case by (cases bs) auto
next
  case (Cons a as)
  show ?case
  proof (cases bs)
    case Nil
    with Cons.prems show ?thesis by auto
  next
    case (Cons b bs')
    let ?t = "\<lambda>xs q. concat (map (\<lambda>a. '','' @ f a) xs) @ z # q"
    have "f a @ ?t as r = f b @ ?t bs' s" using Cons.prems(4) Cons by simp
    moreover have "closes (?t xs q)" for xs q using Cons.prems(3) by (cases xs) auto
    moreover have "ok b" using Cons.prems(2) Cons by simp
    ultimately have "a = b" and "?t as r = ?t bs' s" using Cons.prems(1) by (metis list.set_intros(1))+
    moreover from this(2) have "as = bs' \<and> r = s"
      using Cons.prems Cons by (intro Cons.IH) auto
    ultimately show ?thesis using Cons by simp
  qed
qed

lemma items_inj:
  assumes el: "\<forall>a \<in> set as. \<forall>b r s. ok b \<longrightarrow> closes r \<longrightarrow> closes s \<longrightarrow> f a @ r = f b @ s \<longrightarrow> a = b \<and> r = s"
    and ok: "\<forall>b \<in> set bs. ok b" and z: "z \<in> set '']}''"
    and hd: "\<And>a. a \<in> set as \<union> set bs \<Longrightarrow> f a \<noteq> [] \<and> hd (f a) \<noteq> z"
    and eq: "py_join '','' (map f as) @ z # r = py_join '','' (map f bs) @ z # s"
  shows "as = bs \<and> r = s"
proof (cases as)
  case Nil
  show ?thesis
  proof (cases bs)
    case Nil
    with eq \<open>as = []\<close> show ?thesis by simp
  next
    case (Cons b bs')
    with eq \<open>as = []\<close> have "z # r = f b @ concat (map (\<lambda>a. '','' @ f a) bs') @ z # s"
      by (simp add: py_join_cons comp_def)
    then have False using Cons_append_hd hd [of b] Cons by fastforce
    then show ?thesis ..
  qed
next
  case (Cons a as')
  note as = this
  show ?thesis
  proof (cases bs)
    case Nil
    with eq as have "z # s = f a @ concat (map (\<lambda>a. '','' @ f a) as') @ z # r"
      by (simp add: py_join_cons comp_def)
    then have False using Cons_append_hd hd [of a] as by fastforce
    then show ?thesis ..
  next
    case (Cons b bs')
    let ?t = "\<lambda>xs q. concat (map (\<lambda>a. '','' @ f a) xs) @ z # q"
    have j: "py_join '','' (map f (x # xs)) @ z # q = f x @ ?t xs q" for x xs q
      by (simp add: py_join_cons comp_def)
    have "f a @ ?t as' r = f b @ ?t bs' s" using eq unfolding as Cons j .
    moreover have "closes (?t xs q)" for xs q using z by (cases xs) auto
    moreover have "ok b" using ok Cons by simp
    ultimately have "a = b" and "?t as' r = ?t bs' s" using el as by (metis list.set_intros(1))+
    moreover have "as' = bs' \<and> r = s"
      using el ok z \<open>?t as' r = ?t bs' s\<close> as Cons by (intro tail_inj [of as' ok f bs' z]) auto
    ultimately show ?thesis using as Cons by simp
  qed
qed

lemma render_hd_kind:
  assumes "json_ok v"
  shows "render v \<noteq> []" and "hd (render v) = CHR 0x22 \<longleftrightarrow> (\<exists>s. v = JStr s)"
    and "hd (render v) = CHR ''['' \<longleftrightarrow> (\<exists>vs. v = JArr vs)"
    and "hd (render v) = CHR ''{'' \<longleftrightarrow> (\<exists>kvs. v = JObj kvs)"
  using assms atom_hd [of v] by (cases v; auto simp: json_string_def)+

lemma render_hd_open:
  assumes "json_ok v"
  shows "hd (render v) \<notin> set '',}]''"
proof (cases "atom v")
  case True
  then have "hd (render v) \<in> set (render v)" using atom_hd(1) [OF True assms] by simp
  then show ?thesis using atom_no_close [OF True assms] by blast
next
  case False
  then show ?thesis by (cases v) (auto simp: json_string_def)
qed

lemma closing_split:
  assumes "\<forall>c \<in> set a. c \<notin> set '',}]''" and "\<forall>c \<in> set b. c \<notin> set '',}]''"
    and "closes r" and "closes s" and "a @ r = b @ s"
  shows "a = b \<and> r = s"
proof -
  have tw: "takeWhile (\<lambda>c. c \<notin> set '',}]'') (x @ q) = x"
    if "\<forall>c \<in> set x. c \<notin> set '',}]''" "closes q" for x q
    using that by (cases q) (auto simp: closes_def takeWhile_append)
  have "a = b" using tw [OF assms(1,3)] tw [OF assms(2,4)] assms(5) by simp
  then show ?thesis using assms(5) by simp
qed

lemma decodes_atom:
  assumes "atom v" and "json_ok v"
  shows "decodes v"
  unfolding decodes_def
proof (intro allI impI)
  fix w r s
  assume w: "json_ok w" and c: "closes r" "closes s" and eq: "render v @ r = render w @ s"
  have "hd (render v) = hd (render w)"
    using eq atom_hd(1) [OF assms] render_hd_kind(1) [OF w] by (metis hd_append2)
  then have "atom w" using atom_hd(2) [OF assms] render_hd_kind(2-4) [OF w] by (cases w) auto
  then have "render v = render w \<and> r = s"
    using closing_split [OF atom_no_close [OF assms] atom_no_close [OF _ w] c eq] by blast
  then show "v = w \<and> r = s" using atom_render_inj assms \<open>atom w\<close> w by blast
qed

definition render_item :: "string \<times> json \<Rightarrow> string" where
  "render_item kv = json_string False (fst kv) @ '':'' @ render (snd kv)"

lemma render_JObj: "render (JObj kvs) = ''{'' @ py_join '','' (map render_item kvs) @ ''}''"
proof -
  have "map (\<lambda>(k, t). json_string False k @ '':'' @ t) (map (map_prod id render) kvs) = map render_item kvs"
    by (auto simp: render_item_def)
  then show ?thesis by (simp only: render.simps)
qed

lemma render_item_inj:
  assumes "decodes (snd a)" and "json_ok (snd b)" and "closes r" and "closes s"
    and "render_item a @ r = render_item b @ s"
  shows "a = b \<and> r = s"
proof -
  have "json_string False (fst a) @ '':'' @ render (snd a) @ r
      = json_string False (fst b) @ '':'' @ render (snd b) @ s"
    using assms(5) by (simp add: render_item_def)
  from json_string_inj [OF this]
  have fst: "fst a = fst b" and "render (snd a) @ r = render (snd b) @ s" by simp_all
  with decodesD [OF assms(1,2,3,4)] have "snd a = snd b \<and> r = s" by blast
  with fst show ?thesis by (simp add: prod_eq_iff)
qed

lemma decodes_render: "json_ok v \<Longrightarrow> decodes v"
proof (induction v)
  case (JStr t)
  show ?case unfolding decodes_def
  proof (intro allI impI)
    fix w r s
    assume w: "json_ok w" and eq: "render (JStr t) @ r = render w @ s"
    then have "CHR 0x22 # concat (map (escape_char False) t) @ CHR 0x22 # r = render w @ s"
      by (simp add: json_string_def)
    then have "hd (render w) = CHR 0x22" using render_hd_kind(1) [OF w] by (rule Cons_append_hd)
    then obtain u where u: "w = JStr u" using render_hd_kind(2) [OF w] by blast
    then have "json_string False t @ r = json_string False u @ s" using eq by simp
    from json_string_inj [OF this] u show "JStr t = w \<and> r = s" by simp
  qed
next
  case (JArr vs)
  then have el: "\<forall>a \<in> set vs. decodes a" and ok: "\<forall>a \<in> set vs. json_ok a"
    by (simp_all add: list_all_iff)
  show ?case unfolding decodes_def
  proof (intro allI impI)
    fix w r s
    assume w: "json_ok w" and eq: "render (JArr vs) @ r = render w @ s"
    then have "CHR ''['' # py_join '','' (map render vs) @ CHR '']'' # r = render w @ s" by simp
    then have "hd (render w) = CHR ''[''" using render_hd_kind(1) [OF w] by (rule Cons_append_hd)
    then obtain ws where ws: "w = JArr ws" using render_hd_kind(3) [OF w] by blast
    with w have okw: "\<forall>b \<in> set ws. json_ok b" by (simp add: list_all_iff)
    have "vs = ws \<and> r = s"
    proof (rule items_inj [where f = render and ok = json_ok and z = "CHR '']''"])
      show "\<forall>a \<in> set vs. \<forall>b r s. json_ok b \<longrightarrow> closes r \<longrightarrow> closes s \<longrightarrow> render a @ r = render b @ s \<longrightarrow> a = b \<and> r = s"
        using el unfolding decodes_def by blast
      show "render a \<noteq> [] \<and> hd (render a) \<noteq> CHR '']''" if "a \<in> set vs \<union> set ws" for a
        using that ok okw render_hd_kind(1) render_hd_open by fastforce
      show "py_join '','' (map render vs) @ CHR '']'' # r = py_join '','' (map render ws) @ CHR '']'' # s"
        using eq ws by simp
    qed (use okw in simp_all)
    then show "JArr vs = w \<and> r = s" using ws by simp
  qed
next
  case (JObj kvs)
  then have el: "\<forall>a \<in> set kvs. decodes (snd a)"
    by (fastforce simp: list_all_iff snds.simps)
  have ht: "render_item a \<noteq> [] \<and> hd (render_item a) \<noteq> CHR ''}''" for a
    by (simp add: render_item_def json_string_def)
  show ?case unfolding decodes_def
  proof (intro allI impI)
    fix w r s
    assume w: "json_ok w" and eq: "render (JObj kvs) @ r = render w @ s"
    then have "CHR ''{'' # py_join '','' (map render_item kvs) @ CHR ''}'' # r = render w @ s"
      unfolding render_JObj by simp
    then have "hd (render w) = CHR ''{''" using render_hd_kind(1) [OF w] by (rule Cons_append_hd)
    then obtain kws where ws: "w = JObj kws" using render_hd_kind(4) [OF w] by blast
    with w have okw: "\<forall>b \<in> set kws. json_ok (snd b)" by (force simp: list_all_iff)
    have "kvs = kws \<and> r = s"
    proof (rule items_inj [where f = render_item and ok = "\<lambda>b. json_ok (snd b)" and z = "CHR ''}''"])
      show "\<forall>a \<in> set kvs. \<forall>b r s. json_ok (snd b) \<longrightarrow> closes r \<longrightarrow> closes s
          \<longrightarrow> render_item a @ r = render_item b @ s \<longrightarrow> a = b \<and> r = s"
        using el render_item_inj by blast
      show "py_join '','' (map render_item kvs) @ CHR ''}'' # r = py_join '','' (map render_item kws) @ CHR ''}'' # s"
        using eq unfolding ws render_JObj by simp
    qed (use okw ht in simp_all)
    then show "JObj kvs = w \<and> r = s" using ws by simp
  qed
qed (auto intro: decodes_atom)

lemma json_ok_norm: "json_ok v \<Longrightarrow> json_ok (json_norm v)"
proof (induction v)
  case (JArr vs)
  then show ?case by (simp add: list_all_iff)
next
  case (JObj kvs)
  have "map fst (map (map_prod id json_norm) kvs) = map fst kvs" by simp
  moreover have "mset (map fst (sort_key fst (map (map_prod id json_norm) kvs)))
      = mset (map fst (map (map_prod id json_norm) kvs))" by (simp only: mset_map mset_sort)
  ultimately have "distinct (map fst (sort_key fst (map (map_prod id json_norm) kvs)))"
    using JObj.prems mset_eq_imp_distinct_iff by (metis json_ok.simps(7))
  moreover have "\<forall>kv \<in> set kvs. json_ok (json_norm (snd kv))"
    using JObj by (fastforce simp: list_all_iff snds.simps)
  ultimately show ?case by (auto simp: list_all_iff)
qed simp_all

text \<open>
  Two well-formed values have the same canonical text exactly when they are equal up to the
  order of the keys of their dictionaries.
\<close>

lemma canonical_json_eq_iff:
  assumes "json_ok v" and "json_ok w"
  shows "canonical_json v = canonical_json w \<longleftrightarrow> json_norm v = json_norm w"
proof
  assume "canonical_json v = canonical_json w"
  then have "render (json_norm v) @ [] = render (json_norm w) @ []" by (simp add: canonical_render)
  then show "json_norm v = json_norm w"
    using decodesD [OF decodes_render [OF json_ok_norm [OF assms(1)]] json_ok_norm [OF assms(2)]]
      closesI(4) by blast
qed (simp add: canonical_render)

subsection \<open>Properties\<close>

text \<open>
  C27: The text the audit log hashes identifies the value: two well-formed values have the same
  canonical text exactly when they are equal up to the order of the keys of their dictionaries.
\<close>

theorem canonical_json_identifies:
  assumes "json_ok v" and "json_ok w"
  shows "canonical_json v = canonical_json w \<longleftrightarrow> json_norm v = json_norm w"
  using assms by (rule canonical_json_eq_iff)

lemma canonical_json_identifies_witness:
  "canonical_json (JObj [(''a'', JInt 1), (''b'', JNull)]) = canonical_json (JObj [(''b'', JNull), (''a'', JInt 1)])"
  by (subst canonical_json_identifies) simp_all

end
