(* ===== verification/Py_Datetime.thy ===== *)
theory Py_Datetime
  imports Py_Text
begin

text \<open>
  \<open>datetime\<close> values in UTC: microseconds since the epoch, and whether the value carries a
  time zone.  The code only makes values with \<open>datetime.now(timezone.utc)\<close>, adds
  \<open>timedelta(seconds=n)\<close>, compares and prints them; a value read back from a database
  that does not store zones is naive.
\<close>

datatype datetime = Datetime (micros: int) (aware: bool)

definition plus_seconds :: "datetime \<Rightarrow> int \<Rightarrow> datetime" where
  "plus_seconds t n = Datetime (micros t + n * 1000000) (aware t)"

text \<open>\<open>a <= b\<close> raises for a naive and an aware operand.\<close>

definition datetime_le :: "datetime \<Rightarrow> datetime \<Rightarrow> bool result" where
  "datetime_le a b =
     (if aware a = aware b then Inr (micros a \<le> micros b)
      else Inl (TypeError ''can't compare offset-naive and offset-aware datetimes''))"

text \<open>The proleptic Gregorian date of a day number, days counted from 1 January 1970.\<close>

definition civil_of_days :: "int \<Rightarrow> int \<times> int \<times> int" where
  "civil_of_days day =
     (let z = day + 719468;
          era = z div 146097;
          doe = z mod 146097;
          yoe = (doe - doe div 1460 + doe div 36524 - doe div 146096) div 365;
          doy = doe - (365 * yoe + yoe div 4 - yoe div 100);
          mp = (5 * doy + 2) div 153;
          d = doy - (153 * mp + 2) div 5 + 1;
          m = (if mp < 10 then mp + 3 else mp - 9);
          y = yoe + era * 400
      in (if m \<le> 2 then y + 1 else y, m, d))"

definition pad :: "nat \<Rightarrow> int \<Rightarrow> string" where
  "pad k n = (let s = int_str n in replicate (k - length s) (CHR ''0'') @ s)"

text \<open>\<open>isoformat()\<close>: the fraction is left out when it is zero, the zone when there is none.\<close>

definition isoformat :: "datetime \<Rightarrow> string" where
  "isoformat t =
     (let secs = micros t div 1000000;
          us = micros t mod 1000000;
          sod = secs mod 86400;
          (y, m, d) = civil_of_days (secs div 86400)
      in pad 4 y @ ''-'' @ pad 2 m @ ''-'' @ pad 2 d @ ''T''
         @ pad 2 (sod div 3600) @ '':'' @ pad 2 (sod mod 3600 div 60) @ '':'' @ pad 2 (sod mod 60)
         @ (if us = 0 then [] else ''.'' @ pad 6 us)
         @ (if aware t then ''+00:00'' else []))"

lemma int_str_no_plus: "CHR ''+'' \<notin> set (int_str i)"
  using nat_str_digits [of "nat i"] nat_str_digits [of "nat (- i)"]
  by (auto simp: int_str_def is_digit_def code_def)

lemma pad_no_plus: "CHR ''+'' \<notin> set (pad k n)"
  using int_str_no_plus by (auto simp: pad_def Let_def)

text \<open>The zone shows in the text, so dropping it changes the text.\<close>

lemma isoformat_aware: "CHR ''+'' \<in> set (isoformat t) \<longleftrightarrow> aware t"
  using pad_no_plus
  by (cases "civil_of_days (micros t div 1000000 div 86400)") (auto simp: isoformat_def Let_def)

end
