(* ===== verification/Lua_Script.thy ===== *)
theory Lua_Script
  imports Py_Decimal
begin

text \<open>
  The Lua script of \<open>TokenBucketGovernor\<close> and the Lua 5.1 features it uses: numbers are
  binary doubles, \<open>tonumber\<close> rounds a decimal text to the nearest double, subtraction
  rounds to the nearest double, \<open>tostring\<close> prints with \<open>%.14g\<close>, and Redis turns a
  number in the returned table into an integer by dropping its fraction.

  A double is a pair \<open>(m, e)\<close> standing for \<open>m * 2 ^ e\<close>.  Infinities, NaN and hexadecimal
  texts are outside the model (\<open>tonumber\<close> gives \<open>None\<close> there): the program only writes
  texts made by \<open>str(Decimal)\<close> and by this script, and those are never of that kind.
\<close>

definition c_isspace :: "char \<Rightarrow> bool" where
  "c_isspace c \<longleftrightarrow> code c \<in> {9, 10, 11, 12, 13, 32}"

definition lua_tonumber :: "string \<Rightarrow> scaled option" where
  "lua_tonumber s =
     (let t = split_sign (strip_by c_isspace s)
      in map_option (\<lambda>(n, e). round_scaled 2 53 10 (fst t * int n, e)) (parse_unsigned (snd t)))"

definition lua_sub :: "scaled \<Rightarrow> scaled \<Rightarrow> scaled" where
  "lua_sub x y = round_scaled 2 53 2 (sdiff 2 x y)"

definition strip_zeros :: "string \<Rightarrow> string" where
  "strip_zeros s = rev (dropWhile (\<lambda>c. c = CHR ''0'') (rev s))"

text \<open>C's \<open>%.14g\<close>: 14 significant digits, trailing zeros removed.\<close>

definition lua_tostring :: "scaled \<Rightarrow> string" where
  "lua_tostring x =
     (if fst x = 0 then ''0''
      else let r = round_scaled 10 14 2 x;
               ds = nat_str (nat \<bar>fst r\<bar>);
               k = snd r + 13;
               sg = (if fst r < 0 then ''-'' else [])
           in if - 4 \<le> k \<and> k < 0
              then sg @ ''0'' @ dot_part (strip_zeros (zeros (nat (- k) - 1) @ ds))
              else if 0 \<le> k \<and> k < 14
              then sg @ take (nat k + 1) ds @ dot_part (strip_zeros (drop (nat k + 1) ds))
              else sg @ take 1 ds @ dot_part (strip_zeros (drop 1 ds))
                     @ ''e'' @ (if 0 \<le> k then ''+'' else ''-'')
                     @ (if \<bar>k\<bar> < 10 then ''0'' else []) @ nat_str (nat \<bar>k\<bar>))"

definition lua_to_integer :: "scaled \<Rightarrow> int" where
  "lua_to_integer x =
     (if 0 \<le> snd x then fst x * 2 ^ nat (snd x)
      else sgn (fst x) * (\<bar>fst x\<bar> div 2 ^ nat (- snd x)))"

text \<open>
  \<open>_RESERVE_SCRIPT\<close> on the value stored under \<open>KEYS[1]\<close> (\<open>None\<close> when the key does not
  exist) and the first two arguments.  The result is the text to store, if any, and the two
  integers of the reply; \<open>None\<close> is the error of comparing or subtracting \<open>nil\<close>.
\<close>

definition reserve_script :: "string option \<Rightarrow> string \<Rightarrow> string \<Rightarrow> (string option \<times> int \<times> int) option" where
  "reserve_script stored argv1 argv2 =
     (case (lua_tonumber (case stored of None \<Rightarrow> argv1 | Some s \<Rightarrow> s), lua_tonumber argv2) of
        (Some current, Some amount) \<Rightarrow>
          if sless 2 current amount then Some (None, - 1, lua_to_integer current)
          else let remaining = lua_sub current amount
               in Some (Some (lua_tostring remaining), 1, lua_to_integer remaining)
      | _ \<Rightarrow> None)"

subsection \<open>Reading and printing numbers\<close>

lemma lua_tonumber_text:
  assumes "number_text s c e"
  shows "lua_tonumber s = Some (round_scaled 2 53 10 (c, e))"
proof -
  obtain sg body n where s: "s = sg @ body" "sg = [] \<or> sg = ''-''"
    and body: "body \<noteq> []" "is_digit (hd body)" and parse: "parse_unsigned body = Some (n, e)"
    and c: "c = (if sg = [] then 1 else - 1) * int n"
    using assms unfolding number_text_def by blast
  have "\<forall>x \<in> set s. \<not> c_isspace x"
    using number_text_chars [OF assms] by (auto simp: py_isspace_def c_isspace_def)
  then have "strip_by c_isspace s = s" by (rule strip_by_id)
  moreover have "split_sign s = (if sg = [] then 1 else - 1, body)"
    using s body split_sign_digit by auto
  ultimately show ?thesis using parse c by (simp add: lua_tonumber_def Let_def)
qed

lemma strip_zeros_split:
  obtains k where "s = strip_zeros s @ zeros k"
proof -
  let ?z = "\<lambda>c. c = CHR ''0''"
  have "rev s = takeWhile ?z (rev s) @ dropWhile ?z (rev s)" by simp
  then have "s = rev (dropWhile ?z (rev s)) @ rev (takeWhile ?z (rev s))"
    by (metis rev_append rev_rev_ident)
  moreover have "takeWhile ?z (rev s) = replicate (length (takeWhile ?z (rev s))) (CHR ''0'')"
    by (rule replicate_eqI) (auto dest: set_takeWhileD)
  then have "rev (takeWhile ?z (rev s)) = zeros (length (takeWhile ?z (rev s)))"
    unfolding zeros_def by (metis rev_replicate)
  ultimately have "s = strip_zeros s @ zeros (length (takeWhile ?z (rev s)))"
    by (simp add: strip_zeros_def)
  then show thesis by (rule that)
qed

text \<open>Dropping trailing zeros after the point keeps the value.\<close>

lemma strip_zeros_value:
  assumes "all_digits t"
  obtains k where "all_digits (strip_zeros t)" and "length t = length (strip_zeros t) + k"
    and "digits_val (ip @ t) = digits_val (ip @ strip_zeros t) * 10 ^ k"
proof -
  obtain k where t: "t = strip_zeros t @ zeros k" by (rule strip_zeros_split)
  have "all_digits (strip_zeros t)" using assms t by (metis all_digits_simps(3))
  moreover have "length t = length (strip_zeros t) + k" by (subst t) simp
  moreover have "digits_val (ip @ t) = digits_val ((ip @ strip_zeros t) @ zeros k)"
    by (subst t) simp
  then have "digits_val (ip @ t) = digits_val (ip @ strip_zeros t) * 10 ^ k"
    by (simp only: digits_val_append length_zeros) (simp add: zeros_def)
  ultimately show thesis by (rule that)
qed

lemma sval_shift:
  assumes "D = c * 10 ^ k"
  shows "sval 10 (sg * int c, x + int k) = sval 10 (sg * int D, x)"
  using assms powi_nat_diff [of "10::rat" x "x + int k"] by (simp add: sval_def)

lemma parse_exponent_two_digits:
  "parse_exponent (''e'' @ (if 0 \<le> i then ''+'' else ''-'')
     @ (if \<bar>i\<bar> < 10 then ''0'' else []) @ nat_str (nat \<bar>i\<bar>)) = Some i"
  by (auto simp: parse_exponent_def)

text \<open>
  One digit string cut into a whole part and a fraction, trailing zeros dropped, with an
  exponent: the text stands for the digits scaled by the exponent.
\<close>

lemma number_text_stripped:
  assumes sg: "sg = [] \<or> sg = ''-''" and ip: "all_digits ip" "ip \<noteq> []" and t: "all_digits t"
    and ex: "ex = [] \<or> hd ex = CHR ''e'' \<or> hd ex = CHR ''E''" "parse_exponent ex = Some x"
    "list_all num_char ex"
  obtains c e where "number_text (sg @ ip @ dot_part (strip_zeros t) @ ex) c e"
    and "sval 10 (c, e) = sval 10 ((if sg = [] then 1 else - 1) * int (digits_val (ip @ t)), x - int (length t))"
    and "nat \<bar>c\<bar> \<le> digits_val (ip @ t)" and "x - int (length t) \<le> e" and "e \<le> x"
proof -
  let ?u = "strip_zeros t" and ?sg = "if sg = [] then 1 else - 1 :: int"
  obtain k where u: "all_digits ?u" and len: "length t = length ?u + k"
    and D: "digits_val (ip @ t) = digits_val (ip @ ?u) * 10 ^ k"
    using strip_zeros_value [OF t, of ip] by blast
  have "number_text (sg @ ip @ dot_part ?u @ ex) (?sg * int (digits_val (ip @ ?u))) (x - int (length ?u))"
    by (rule number_textI [OF sg ip u ex])
  moreover have "sval 10 (?sg * int (digits_val (ip @ ?u)), (x - int (length t)) + int k)
      = sval 10 (?sg * int (digits_val (ip @ t)), x - int (length t))"
    by (rule sval_shift [OF D])
  moreover have "(x - int (length t)) + int k = x - int (length ?u)" using len by simp
  moreover have "digits_val (ip @ ?u) \<le> digits_val (ip @ t)" unfolding D by simp
  then have "nat \<bar>?sg * int (digits_val (ip @ ?u))\<bar> \<le> digits_val (ip @ t)" by simp
  ultimately show thesis using len by (intro that) (simp, simp, simp, linarith+)
qed

text \<open>\<open>tostring\<close> prints a number that stands for the 14-digit rounding of the double.\<close>

lemma lua_tostring_text:
  assumes "fst x \<noteq> 0"
  obtains c e where "number_text (lua_tostring x) c e"
    and "sval 10 (c, e) = sval 10 (round_scaled 10 14 2 x)"
    and "nat \<bar>c\<bar> < 10 ^ 14" and "snd (round_scaled 10 14 2 x) - 18 \<le> e"
    and "e \<le> snd (round_scaled 10 14 2 x) + 13 \<or> e \<le> 0"
proof -
  define m where "m = fst (round_scaled 10 14 2 x)"
  define y where "y = snd (round_scaled 10 14 2 x)"
  define ds where "ds = nat_str (nat \<bar>m\<bar>)"
  let ?sg = "if m < 0 then ''-'' else []" and ?k = "y + 13"
  have r: "round_scaled 10 14 2 x = (m, y)" by (simp add: m_def y_def)
  have mant: "10 ^ 13 \<le> nat \<bar>m\<bar>" "nat \<bar>m\<bar> < 10 ^ 14"
    using round_scaled_mantissa [of 10 14 2 x] assms by (simp_all add: m_def)
  have ds: "all_digits ds" "digits_val ds = nat \<bar>m\<bar>" "length ds = 14"
    using length_nat_str_eq [of 13 "nat \<bar>m\<bar>"] mant by (simp_all add: ds_def)
  have sgm: "(if ?sg = [] then 1 else - 1) * int (nat \<bar>m\<bar>) = m" by simp
  have sg: "?sg = [] \<or> ?sg = ''-''" by simp
  have cut: "all_digits (take j ds)" "all_digits (drop j ds)" for j
    using all_digits_take ds(1) by blast+
  consider (lead) "- 4 \<le> ?k" "?k < 0" | (inner) "0 \<le> ?k" "?k < 14" | (sci) "?k < - 4 \<or> 14 \<le> ?k"
    by linarith
  then show thesis
  proof cases
    case lead
    let ?t = "zeros (nat (- ?k) - 1) @ ds"
    have str: "lua_tostring x = ?sg @ ''0'' @ dot_part (strip_zeros ?t) @ []"
      using lead assms by (simp add: lua_tostring_def Let_def r ds_def)
    have len: "0 - int (length ?t) = y" using lead ds(3) by simp
    have ip: "all_digits ''0''" "''0'' \<noteq> []" and t: "all_digits ?t" using ds(1) by simp_all
    have ex: "parse_exponent [] = Some 0" "list_all num_char []" by (simp_all add: parse_exponent_def)
    obtain c e where ce: "number_text (?sg @ ''0'' @ dot_part (strip_zeros ?t) @ []) c e"
      "sval 10 (c, e) = sval 10 ((if ?sg = [] then 1 else - 1) * int (digits_val (''0'' @ ?t)), 0 - int (length ?t))"
      "nat \<bar>c\<bar> \<le> digits_val (''0'' @ ?t)" "0 - int (length ?t) \<le> e" "e \<le> 0"
      by (rule number_text_stripped [OF sg ip t _ ex]) simp
    have dv: "digits_val (''0'' @ ?t) = nat \<bar>m\<bar>" using ds(2) by simp
    show thesis
      by (rule that [of c e]) (use ce[unfolded dv len sgm] mant in \<open>simp_all add: str r\<close>)
  next
    case inner
    let ?ip = "take (nat ?k + 1) ds" and ?t = "drop (nat ?k + 1) ds"
    have str: "lua_tostring x = ?sg @ ?ip @ dot_part (strip_zeros ?t) @ []"
      using inner assms by (simp add: lua_tostring_def Let_def r ds_def)
    have len: "0 - int (length ?t) = y" using inner ds(3) by simp
    have ip: "?ip \<noteq> []" using ds(3) by auto
    have ex: "parse_exponent [] = Some 0" "list_all num_char []" by (simp_all add: parse_exponent_def)
    obtain c e where ce: "number_text (?sg @ ?ip @ dot_part (strip_zeros ?t) @ []) c e"
      "sval 10 (c, e) = sval 10 ((if ?sg = [] then 1 else - 1) * int (digits_val (?ip @ ?t)), 0 - int (length ?t))"
      "nat \<bar>c\<bar> \<le> digits_val (?ip @ ?t)" "0 - int (length ?t) \<le> e" "e \<le> 0"
      by (rule number_text_stripped [OF sg cut(1) ip cut(2) _ ex]) simp
    have dv: "digits_val (?ip @ ?t) = nat \<bar>m\<bar>" using ds(2) by (simp only: append_take_drop_id)
    show thesis
      by (rule that [of c e]) (use ce[unfolded dv len sgm] mant in \<open>simp_all add: str r\<close>)
  next
    case sci
    let ?ip = "take 1 ds" and ?t = "drop 1 ds"
    let ?ex = "''e'' @ (if 0 \<le> ?k then ''+'' else ''-'') @ (if \<bar>?k\<bar> < 10 then ''0'' else [])
      @ nat_str (nat \<bar>?k\<bar>)"
    have str: "lua_tostring x = ?sg @ ?ip @ dot_part (strip_zeros ?t) @ ?ex"
      using sci assms by (auto simp: lua_tostring_def Let_def r ds_def)
    have len: "?k - int (length ?t) = y" using ds(3) by simp
    have ip: "?ip \<noteq> []" using ds(3) by auto
    have ex: "?ex = [] \<or> hd ?ex = CHR ''e'' \<or> hd ?ex = CHR ''E''" by simp
    have exc: "list_all num_char ?ex" by simp (simp add: num_char_def)
    obtain c e where ce: "number_text (?sg @ ?ip @ dot_part (strip_zeros ?t) @ ?ex) c e"
      "sval 10 (c, e) = sval 10 ((if ?sg = [] then 1 else - 1) * int (digits_val (?ip @ ?t)), ?k - int (length ?t))"
      "nat \<bar>c\<bar> \<le> digits_val (?ip @ ?t)" "?k - int (length ?t) \<le> e" "e \<le> ?k"
      by (rule number_text_stripped [OF sg cut(1) ip cut(2) ex parse_exponent_two_digits exc])
    have dv: "digits_val (?ip @ ?t) = nat \<bar>m\<bar>" using ds(2) by (simp only: append_take_drop_id)
    show thesis
      by (rule that [of c e]) (use ce[unfolded dv len sgm] mant in \<open>simp_all add: str r\<close>)
  qed
qed

subsection \<open>The script on texts that stand for numbers\<close>

text \<open>\<open>denotes s v\<close>: both readers of the stored text, \<open>Decimal\<close> and \<open>tonumber\<close>, take
  \<open>s\<close> for a decimal number, and that number is \<open>v\<close>.\<close>

definition denotes :: "string \<Rightarrow> rat \<Rightarrow> bool" where
  "denotes s v \<longleftrightarrow> (\<exists>c e. number_text s c e \<and> dec_range (nat \<bar>c\<bar>) e \<and> sval 10 (c, e) = v)"

lemma denotes_dec:
  assumes "denotes s v"
  obtains d where "dec_of_str s = Some (Finite d)" and "dval d = v"
  using assms dec_of_str_number that unfolding denotes_def dval_def by (metis pair_of_Dec)

lemma denotes_lua:
  assumes "denotes s v"
  obtains x where "sval 10 x = v" and "lua_tonumber s = Some (round_scaled 2 53 10 x)"
  using assms lua_tonumber_text that unfolding denotes_def by blast

lemma denotes_dec_str:
  "dec_range (nat \<bar>coef d\<bar>) (expo d) \<Longrightarrow> denotes (dec_str d) (dval d)"
  using number_text_dec_str unfolding denotes_def dval_def pair_of_def by blast

lemma denotes_zero [simp]: "denotes ''0'' 0"
proof -
  have "number_text ''0'' 0 0"
    using number_textI [of "[]" "''0''" "[]" "[]" 0] by (simp add: dot_part_def parse_exponent_def)
  moreover have "dec_range 0 0" by (rule dec_range_small) simp_all
  ultimately show ?thesis unfolding denotes_def by (intro exI [of _ 0]) (simp add: sval_def)
qed

text \<open>A double that stands for an integer becomes that integer.\<close>

lemma lua_to_integer_exact:
  assumes "sval 2 x = of_int v"
  shows "lua_to_integer x = v"
proof (cases "0 \<le> snd x")
  case True
  then have "(of_int (fst x * 2 ^ nat (snd x)) :: rat) = of_int v"
    using assms by (simp add: sval_def power_int_def)
  then show ?thesis using True by (simp only: of_int_eq_iff) (simp add: lua_to_integer_def)
next
  case False
  let ?p = "2 ^ nat (- snd x) :: int"
  have "(of_int (fst x) :: rat) = of_int v * 2 ^ nat (- snd x)"
    using assms False by (simp add: sval_def power_int_def field_simps power_inverse)
  then have "(of_int (fst x) :: rat) = of_int (v * ?p)" by simp
  then have fx: "fst x = v * ?p" by (simp only: of_int_eq_iff)
  have "sgn (fst x) * (\<bar>fst x\<bar> div ?p) = sgn v * \<bar>v\<bar>"
    unfolding fx by (simp add: sgn_mult abs_mult)
  then show ?thesis using False by (simp add: lua_to_integer_def sgn_mult_abs)
qed

text \<open>Whole amounts below \<open>10 ^ 14\<close> go through every conversion unchanged.\<close>

lemma round_whole_exact:
  assumes "0 < b" and "sval b x = of_int v" and "\<bar>v\<bar> < 10 ^ 14"
    and "(c = 2 \<and> p = 53) \<or> (c = 10 \<and> p = 14)"
  shows "sval c (round_scaled c p b x) = of_int v"
proof -
  have "nat \<bar>v\<bar> < c ^ p" using assms(3,4) by auto
  moreover have "1 < c" "0 < p" using assms(4) by auto
  ultimately have "sval c (round_scaled c p b x) = sval b x"
    using sval_round_scaled_exact [of c p b v x 0] assms(1,2) by simp
  then show ?thesis using assms(2) by simp
qed

lemma lua_tostring_whole:
  assumes "sval 2 x = of_int v" and "0 \<le> v" and "v < 10 ^ 14"
  shows "denotes (lua_tostring x) (of_int v)"
proof (cases "fst x = 0")
  case True
  then have "v = 0" using assms(1) by (simp add: sval_def)
  with True show ?thesis by (simp add: lua_tostring_def)
next
  case False
  define r where "r = round_scaled 10 14 2 x"
  have r: "sval 10 r = of_int v" using round_whole_exact [of 2 x v 10 14] assms by (simp add: r_def)
  have v: "1 \<le> v" using assms False sval_sign(2) [of 2 x] by auto
  have m: "10 ^ 13 \<le> nat \<bar>fst r\<bar>" "nat \<bar>fst r\<bar> < 10 ^ 14"
    using round_scaled_mantissa [of 10 14 2 x] False by (simp_all add: r_def)
  have "0 < fst r" using r v sval_sign(3) [of 10 r] by simp
  with m have m': "10 ^ 13 \<le> fst r" "fst r < 10 ^ 14" by simp_all
  have y: "- 14 \<le> snd r" "snd r \<le> 0"
  proof -
    have val: "of_int (fst r) * (10::rat) powi snd r = of_int v" using r by (simp add: sval_def)
    have P: "0 < (10::rat) powi snd r" by (simp add: zero_less_power_int)
    show "snd r \<le> 0"
    proof (rule ccontr)
      assume "\<not> snd r \<le> 0"
      then have "(10::rat) powi 1 \<le> 10 powi snd r" by (intro power_int_increasing) simp_all
      then have "10 ^ 13 * 10 \<le> of_int (fst r) * (10::rat) powi snd r"
        using m'(1) by (intro mult_mono) simp_all
      with val have "(of_int (10 ^ 14) :: rat) \<le> of_int v" by simp
      then show False using assms(3) by (simp only: of_int_le_iff)
    qed
    show "- 14 \<le> snd r"
    proof (rule ccontr)
      assume "\<not> - 14 \<le> snd r"
      then have "(10::rat) powi snd r \<le> 10 powi (- 14)" by (intro power_int_increasing) simp_all
      moreover have "(of_int (fst r) :: rat) < of_int (10 ^ 14)" using m'(2) by (simp only: of_int_less_iff)
      ultimately have "of_int (fst r) * (10::rat) powi snd r < 10 ^ 14 * 10 powi (- 14)"
        using P \<open>0 < fst r\<close> by (intro mult_less_le_imp_less) simp_all
      moreover have "10 ^ 14 * (10::rat) powi (- 14) = 1" by (simp add: power_int_minus)
      ultimately have "(of_int v :: rat) < of_int 1" using val by simp
      then show False using v by (simp only: of_int_less_iff)
    qed
  qed
  obtain c e where ce: "number_text (lua_tostring x) c e" "sval 10 (c, e) = sval 10 r"
    "nat \<bar>c\<bar> < 10 ^ 14" "snd r - 18 \<le> e" "e \<le> snd r + 13 \<or> e \<le> 0"
    using lua_tostring_text [OF False] unfolding r_def by blast
  have "dec_range (nat \<bar>c\<bar>) e" using ce(3-5) y by (intro dec_range_small) auto
  then show ?thesis using ce r unfolding denotes_def by auto
qed

text \<open>The reservation of a whole amount from a whole balance.\<close>

lemma reserve_script_whole:
  assumes cur: "denotes (case stored of None \<Rightarrow> argv1 | Some s \<Rightarrow> s) (of_int v)"
    and amt: "denotes argv2 (of_int w)"
    and v: "0 \<le> v" "v < 10 ^ 14" and w: "0 \<le> w" "w < 10 ^ 14"
  shows "v < w \<Longrightarrow> reserve_script stored argv1 argv2 = Some (None, - 1, v)"
    and "w \<le> v \<Longrightarrow> \<exists>r. reserve_script stored argv1 argv2 = Some (Some r, 1, v - w)
           \<and> denotes r (of_int (v - w))"
proof -
  obtain x where x: "sval 10 x = of_int v"
    "lua_tonumber (case stored of None \<Rightarrow> argv1 | Some s \<Rightarrow> s) = Some (round_scaled 2 53 10 x)"
    using cur by (rule denotes_lua)
  obtain y where y: "sval 10 y = of_int w" "lua_tonumber argv2 = Some (round_scaled 2 53 10 y)"
    using amt by (rule denotes_lua)
  define cx cy where "cx = round_scaled 2 53 10 x" and "cy = round_scaled 2 53 10 y"
  have cx: "sval 2 cx = of_int v" and cy: "sval 2 cy = of_int w"
    using round_whole_exact [of 10 x v 2 53] round_whole_exact [of 10 y w 2 53] x(1) y(1) v w
    by (simp_all add: cx_def cy_def)
  have less: "sless 2 cx cy \<longleftrightarrow> v < w" by (simp add: sless_iff cx cy)
  have script: "reserve_script stored argv1 argv2 =
      (if v < w then Some (None, - 1, lua_to_integer cx)
       else Some (Some (lua_tostring (lua_sub cx cy)), 1, lua_to_integer (lua_sub cx cy)))"
    using x(2) y(2) less by (simp add: reserve_script_def cx_def [symmetric] cy_def [symmetric] Let_def)
  show "v < w \<Longrightarrow> reserve_script stored argv1 argv2 = Some (None, - 1, v)"
    using script lua_to_integer_exact [OF cx] by simp
  show "\<exists>r. reserve_script stored argv1 argv2 = Some (Some r, 1, v - w) \<and> denotes r (of_int (v - w))"
    if "w \<le> v"
  proof -
    have val: "sval 2 (lua_sub cx cy) = of_int (v - w)"
      unfolding lua_sub_def using that v w cx cy by (intro round_whole_exact) simp_all
    have "denotes (lua_tostring (lua_sub cx cy)) (of_int (v - w))"
      using that v w by (intro lua_tostring_whole val) simp_all
    moreover have "lua_to_integer (lua_sub cx cy) = v - w" using val by (rule lua_to_integer_exact)
    ultimately show ?thesis using that script by simp
  qed
qed

end
