(* ===== verification/Store.thy ===== *)
theory Store
  imports Py_Json Py_Datetime Lua_Script
begin

text \<open>
  The state the service works on: the tables of \<open>marcel/models/database.py\<close>, the Redis
  keys and published messages, the clock, the source of fresh identifiers and the state of
  the current database session, with the operations the code performs on them.

  What is not under \<open>src/\<close> is a parameter: the record \<open>platform\<close> holds the hash and
  MAC functions and what a column of type \<open>DateTime\<close> or \<open>JSON\<close> gives
  back for the value stored in it.
\<close>

subsection \<open>Tables\<close>

datatype hitl_status = PENDING | APPROVED | REJECTED | EXPIRED | CANCELLED

fun hitl_status_value :: "hitl_status \<Rightarrow> string" where
  "hitl_status_value PENDING = ''pending''"
| "hitl_status_value APPROVED = ''approved''"
| "hitl_status_value REJECTED = ''rejected''"
| "hitl_status_value EXPIRED = ''expired''"
| "hitl_status_value CANCELLED = ''cancelled''"

record budget =
  bu_id :: string
  bu_agent_id :: string
  bu_currency :: string
  bu_limit_amount :: dec
  bu_consumed_amount :: dec
  bu_version :: int
  bu_active :: bool
  bu_created_at :: datetime
  bu_updated_at :: datetime

record agent =
  ag_id :: string
  ag_display_name :: string
  ag_tenant_id :: string
  ag_allowed_actions :: "string list"
  ag_risk_tier :: string
  ag_active :: bool
  ag_metadata_json :: json
  ag_created_at :: datetime
  ag_updated_at :: datetime

record policy =
  po_id :: string
  po_name :: string
  po_version :: int
  po_enabled :: bool
  po_priority :: int
  po_definition :: json
  po_created_at :: datetime
  po_updated_at :: datetime

record audit_log =
  au_id :: string
  au_sequence_number :: int
  au_event_type :: string
  au_actor_id :: string
  au_event_payload :: json
  au_previous_hash :: "string option"
  au_entry_hash :: string
  au_signature :: string
  au_created_at :: datetime

record hitl_transaction =
  hi_id :: string
  hi_idempotency_key :: string
  hi_agent_id :: string
  hi_action :: string
  hi_intent_payload :: json
  hi_requested_amount :: "dec option"
  hi_currency :: "string option"
  hi_risk_score :: int
  hi_reasons :: "string list"
  hi_status :: hitl_status
  hi_reviewer_id :: "string option"
  hi_reviewer_comment :: "string option"
  hi_expires_at :: datetime
  hi_resolved_at :: "datetime option"
  hi_created_at :: datetime
  hi_updated_at :: datetime

record database =
  agents :: "agent list"
  budgets :: "budget list"
  policies :: "policy list"
  audit_logs :: "audit_log list"
  hitl_transactions :: "hitl_transaction list"

subsection \<open>The world\<close>

text \<open>
  \<open>stored_time\<close> and \<open>stored_json\<close> say what a column gives back for a value, \<open>fits_integer\<close> which numbers an
  \<open>Integer\<close> column takes.  Only the version of a policy comes from a client and is checked; the
  numbers of audit entries and the versions of budgets count up from one by one and are unbounded
  here.
\<close>

record platform =
  sha256_hex :: "string \<Rightarrow> string"
  hmac_sha256_hex :: "string \<Rightarrow> string \<Rightarrow> string"
  stored_time :: "datetime \<Rightarrow> datetime"
  stored_json :: "json \<Rightarrow> json"
  fits_integer :: "int \<Rightarrow> bool"

text \<open>
  \<open>w_db\<close> is the database as the current session sees it, \<open>w_base\<close> what a rollback goes
  back to.  A Redis key maps to its text and the time it expires at.  \<open>w_clock n\<close> is the
  \<open>n\<close>-th reading of the clock (microseconds) and \<open>w_uuid n\<close> the \<open>n\<close>-th fresh
  identifier; the counters say how many were used.
\<close>

record world =
  w_db :: database
  w_base :: database
  w_session_ok :: bool
  w_kv :: "string \<Rightarrow> (string \<times> int) option"
  w_published :: "(string \<times> string) list"
  w_clock :: "nat \<Rightarrow> int"
  w_ticks :: nat
  w_uuid :: "nat \<Rightarrow> string"
  w_uuids :: nat

type_synonym 'a op = "(world, 'a) eff"

definition tick :: "int op" where
  "tick w = (Inr (w_clock w (w_ticks w)), w\<lparr>w_ticks := Suc (w_ticks w)\<rparr>)"

text \<open>\<open>datetime.now(timezone.utc)\<close> and \<open>str(uuid.uuid4())\<close>.\<close>

definition now_utc :: "datetime op" where
  "now_utc = bindE tick (\<lambda>t. ret (Datetime t True))"

definition uuid4 :: "string op" where
  "uuid4 w = (Inr (w_uuid w (w_uuids w)), w\<lparr>w_uuids := Suc (w_uuids w)\<rparr>)"

subsection \<open>Sessions\<close>

text \<open>
  \<open>async with session.begin()\<close>: the changes are kept when the block is left normally,
  and undone when an exception leaves it.  Redis, the clock and the identifiers are not
  part of the transaction.
\<close>

definition session_begin :: "'a op \<Rightarrow> 'a op" where
  "session_begin body w =
     (case body (w\<lparr>w_base := w_db w, w_session_ok := True\<rparr>) of
        (Inr x, w') \<Rightarrow> (Inr x, w')
      | (Inl e, w') \<Rightarrow> (Inl e, w'\<lparr>w_db := w_base w'\<rparr>))"

text \<open>A session without \<open>begin()\<close>: closing it undoes what was not committed.\<close>

definition with_session :: "'a op \<Rightarrow> 'a op" where
  "with_session body w =
     (case body (w\<lparr>w_base := w_db w, w_session_ok := True\<rparr>) of (r, w') \<Rightarrow> (r, w'\<lparr>w_db := w_base w'\<rparr>))"

text \<open>
  A statement on the session.  After a flush has failed the session refuses every statement
  until it is rolled back.
\<close>

definition execute :: "(database \<Rightarrow> 'a result) \<Rightarrow> 'a op" where
  "execute q w = (if w_session_ok w then q (w_db w) else Inl PendingRollbackError, w)"

definition update_db :: "(database \<Rightarrow> database) \<Rightarrow> unit op" where
  "update_db f = modify_s (\<lambda>w. w\<lparr>w_db := f (w_db w)\<rparr>)"

lemma execute_bind:
  "bindE (execute q) f w =
     (if w_session_ok w then case q (w_db w) of Inl e \<Rightarrow> (Inl e, w) | Inr x \<Rightarrow> f x w
      else (Inl PendingRollbackError, w))"
  by (simp add: bindE_def execute_def split: sum.split)

text \<open>\<open>session.add(row); await session.flush()\<close>, where \<open>clash\<close> is the unique constraint.\<close>

definition add_and_flush :: "(database \<Rightarrow> bool) \<Rightarrow> (database \<Rightarrow> database) \<Rightarrow> unit op" where
  "add_and_flush clash ins w =
     (if \<not> w_session_ok w then (Inl PendingRollbackError, w)
      else if clash (w_db w) then (Inl IntegrityError, w\<lparr>w_session_ok := False\<rparr>)
      else (Inr (), w\<lparr>w_db := ins (w_db w)\<rparr>))"

text \<open>
  The same flush for a value that an \<open>Integer\<close> column may refuse: the database raises an error that is
  not the one of a constraint.
\<close>

definition integer_column :: "platform \<Rightarrow> int \<Rightarrow> unit op" where
  "integer_column P n w =
     (if w_session_ok w \<and> \<not> fits_integer P n then (Inl DataError, w\<lparr>w_session_ok := False\<rparr>) else (Inr (), w))"

text \<open>What other sessions commit meanwhile becomes visible, and survives a rollback.\<close>

definition others_commit :: "(database \<Rightarrow> database) \<Rightarrow> unit op" where
  "others_commit g = modify_s (\<lambda>w. w\<lparr>w_db := g (w_db w), w_base := g (w_base w)\<rparr>)"

subsection \<open>Redis\<close>

definition live_value :: "world \<Rightarrow> int \<Rightarrow> string \<Rightarrow> string option" where
  "live_value w t key =
     (case w_kv w key of None \<Rightarrow> None | Some (s, expiry) \<Rightarrow> if t < expiry then Some s else None)"

definition put_value :: "string \<Rightarrow> string \<Rightarrow> int \<Rightarrow> world \<Rightarrow> world" where
  "put_value key s expiry w = w\<lparr>w_kv := (w_kv w)(key \<mapsto> (s, expiry))\<rparr>"

definition redis_get :: "string \<Rightarrow> string option op" where
  "redis_get key = bindE tick (\<lambda>t. get_s (\<lambda>w. live_value w t key))"

text \<open>\<open>set(key, value, ex=ttl)\<close> and \<open>set(key, value, ex=ttl, nx=True)\<close>.\<close>

definition redis_set :: "string \<Rightarrow> string \<Rightarrow> int \<Rightarrow> unit op" where
  "redis_set key s ttl = bindE tick (\<lambda>t. modify_s (put_value key s (t + ttl * 1000000)))"

definition redis_set_nx :: "string \<Rightarrow> string \<Rightarrow> int \<Rightarrow> unit op" where
  "redis_set_nx key s ttl =
     bindE tick (\<lambda>t. modify_s (\<lambda>w.
       if live_value w t key = None then put_value key s (t + ttl * 1000000) w else w))"

text \<open>\<open>eval(_RESERVE_SCRIPT, 1, key, argv1, argv2, ttl)\<close>: one atomic step.\<close>

definition redis_eval_reserve :: "string \<Rightarrow> string \<Rightarrow> string \<Rightarrow> int \<Rightarrow> (int \<times> int) op" where
  "redis_eval_reserve key argv1 argv2 ttl =
     bindE tick (\<lambda>t w.
       case reserve_script (live_value w t key) argv1 argv2 of
         None \<Rightarrow> (Inl RedisResponseError, w)
       | Some (None, status, remaining) \<Rightarrow> (Inr (status, remaining), w)
       | Some (Some s, status, remaining) \<Rightarrow>
           (Inr (status, remaining), put_value key s (t + ttl * 1000000) w))"

definition redis_publish :: "string \<Rightarrow> string \<Rightarrow> unit op" where
  "redis_publish channel message =
     modify_s (\<lambda>w. w\<lparr>w_published := w_published w @ [(channel, message)]\<rparr>)"

subsection \<open>Operations that leave the session alone\<close>

text \<open>
  Reading the clock or the database, and every Redis operation on a key, leave the session
  (its view, its rollback point and its state) as it was.
\<close>

definition same_session :: "world \<Rightarrow> world \<Rightarrow> bool" where
  "same_session w w' \<longleftrightarrow> w_db w' = w_db w \<and> w_base w' = w_base w \<and> w_session_ok w' = w_session_ok w"

interpretation quiet: effect_relation same_session
  by unfold_locales (simp_all add: same_session_def)

lemma quiet_tick: "obeys same_session tick"
  by (simp add: obeys_def same_session_def tick_def)

lemma quiet_now: "obeys same_session now_utc"
  unfolding now_utc_def by (intro quiet.obeys_bind quiet_tick quiet.obeys_ret)

lemma quiet_uuid4: "obeys same_session uuid4"
  by (simp add: obeys_def same_session_def uuid4_def)

lemma quiet_execute: "obeys same_session (execute q)"
  by (simp add: obeys_def same_session_def execute_def)

lemma quiet_redis_get: "obeys same_session (redis_get key)"
  unfolding redis_get_def by (intro quiet.obeys_bind quiet_tick quiet.obeys_get)

lemma quiet_redis_set: "obeys same_session (redis_set key s ttl)"
  unfolding redis_set_def
  by (intro quiet.obeys_bind quiet_tick quiet.obeys_modify) (simp add: put_value_def same_session_def)

lemma quiet_redis_set_nx: "obeys same_session (redis_set_nx key s ttl)"
  unfolding redis_set_nx_def
  by (intro quiet.obeys_bind quiet_tick quiet.obeys_modify) (simp add: put_value_def same_session_def)

lemma quiet_redis_eval: "obeys same_session (redis_eval_reserve key a b ttl)"
  unfolding redis_eval_reserve_def
  by (intro quiet.obeys_bind quiet_tick)
    (auto simp: obeys_def put_value_def same_session_def split: option.splits prod.splits)

lemma quiet_publish: "obeys same_session (redis_publish c m)"
  unfolding redis_publish_def by (intro quiet.obeys_modify) (simp add: same_session_def)

lemmas quiet_store = quiet.obeys_intros quiet_tick quiet_now quiet_uuid4 quiet_execute
  quiet_redis_get quiet_redis_set quiet_redis_set_nx quiet_redis_eval quiet_publish

lemma same_sessionD:
  assumes "obeys same_session m" and "m w = (r, w')"
  shows "w_db w' = w_db w" and "w_base w' = w_base w" and "w_session_ok w' = w_session_ok w"
  using obeysD_pair [OF assms] by (simp_all add: same_session_def)

subsection \<open>Frame facts\<close>

text \<open>
  A relation on worlds that only looks at the database: reflexive, transitive, and blind to
  the other fields.  Every operation that leaves the database alone obeys it, and a
  transaction whose body obeys it does too, because a rollback goes back to the start.
\<close>

locale database_relation =
  fixes Q :: "database \<Rightarrow> database \<Rightarrow> bool"
  assumes Q_refl: "Q d d" and Q_trans: "Q d e \<Longrightarrow> Q e f \<Longrightarrow> Q d f"
begin

text \<open>Inside a transaction both the session's view and the rollback point move along \<open>Q\<close>.\<close>

definition inner :: "world \<Rightarrow> world \<Rightarrow> bool" where
  "inner w w' \<longleftrightarrow> Q (w_db w) (w_db w') \<and> Q (w_base w) (w_base w')"

text \<open>Outside, only the committed database counts.\<close>

definition outer :: "world \<Rightarrow> world \<Rightarrow> bool" where
  "outer w w' \<longleftrightarrow> Q (w_db w) (w_db w')"

sublocale inside: effect_relation inner
  by unfold_locales (auto simp: inner_def intro: Q_refl Q_trans)

sublocale outside: effect_relation outer
  by unfold_locales (auto simp: outer_def intro: Q_refl Q_trans)

lemma obeys_quiet: "obeys same_session m \<Longrightarrow> obeys inner m"
  by (auto simp: obeys_def inner_def same_session_def Q_refl)

lemma obeys_update_db: "(\<And>d. Q d (f d)) \<Longrightarrow> obeys inner (update_db f)"
  by (simp add: obeys_def update_db_def modify_s_def inner_def Q_refl)

lemma obeys_integer_column: "obeys inner (integer_column P n)"
  by (simp add: obeys_def integer_column_def inner_def Q_refl)

lemma obeys_add_and_flush:
  "(\<And>d. \<not> clash d \<Longrightarrow> Q d (ins d)) \<Longrightarrow> obeys inner (add_and_flush clash ins)"
  by (simp add: obeys_def add_and_flush_def inner_def Q_refl)

lemma obeys_others_commit: "(\<And>d. Q d (g d)) \<Longrightarrow> obeys inner (others_commit g)"
  by (simp add: obeys_def others_commit_def modify_s_def inner_def)

lemmas obeys_store = inside.obeys_intros obeys_quiet [OF quiet_tick] obeys_quiet [OF quiet_now]
  obeys_quiet [OF quiet_uuid4] obeys_quiet [OF quiet_execute] obeys_quiet [OF quiet_publish]

text \<open>Steps whose admissibility depends on what was read before.\<close>

lemma obeys_execute_bind:
  assumes "\<And>x w. q (w_db w) = Inr x \<Longrightarrow> inner w (snd (f x w))"
  shows "obeys inner (bindE (execute q) f)"
  unfolding obeys_def
proof
  fix w
  show "inner w (snd (bindE (execute q) f w))"
  proof (rule inside.bind_from)
    show "inner w (snd (execute q w))" by (rule obeysD) (rule obeys_quiet [OF quiet_execute])
    show "inner w' (snd (f x w'))" if "execute q w = (Inr x, w')" for x w'
      using that assms by (auto simp: execute_def split: if_splits)
  qed
qed

lemma quiet_from:
  assumes "obeys same_session m" and "\<And>x w'. w_db w' = w_db w \<Longrightarrow> inner w' (snd (f x w'))"
  shows "inner w (snd (bindE m f w))"
proof (rule inside.bind_from)
  show "inner w (snd (m w))" by (rule obeysD) (rule obeys_quiet [OF assms(1)])
  show "inner w' (snd (f x w'))" if "m w = (Inr x, w')" for x w'
    using assms(2) same_sessionD [OF assms(1) that] by blast
qed

lemma update_from:
  assumes "Q (w_db w) (g (w_db w))" and "\<And>x. obeys inner (f x)"
  shows "inner w (snd (bindE (update_db g) f w))"
proof (rule inside.bind_from)
  show "inner w (snd (update_db g w))"
    using assms(1) by (simp add: update_db_def modify_s_def inner_def Q_refl)
qed (rule obeysD [OF assms(2)])

lemma obeys_from: "obeys inner m \<Longrightarrow> inner w (snd (m w))"
  by (rule obeysD)

lemma inner_outer: "obeys inner m \<Longrightarrow> obeys outer m"
  by (simp add: obeys_def inner_def outer_def)

text \<open>A transaction takes the committed database along \<open>Q\<close>, also when it rolls back.\<close>

lemma obeys_session_begin:
  assumes "obeys inner body"
  shows "obeys outer (session_begin body)"
  unfolding obeys_def
proof
  fix w :: world
  let ?w = "w\<lparr>w_base := w_db w, w_session_ok := True\<rparr>"
  obtain r w' where run: "body ?w = (r, w')" by fastforce
  then have "inner ?w w'" using assms by (rule obeysD_pair [rotated])
  then have "Q (w_db w) (w_db w')" and "Q (w_db w) (w_base w')" by (simp_all add: inner_def)
  then show "outer w (snd (session_begin body w))"
    using run by (cases r) (simp_all add: session_begin_def outer_def)
qed

lemma obeys_with_session:
  assumes "obeys inner body"
  shows "obeys outer (with_session body)"
  unfolding obeys_def
proof
  fix w :: world
  let ?w = "w\<lparr>w_base := w_db w, w_session_ok := True\<rparr>"
  obtain r w' where run: "body ?w = (r, w')" by fastforce
  then have "inner ?w w'" using assms by (rule obeysD_pair [rotated])
  then show "outer w (snd (with_session body w))"
    using run by (simp add: with_session_def outer_def inner_def)
qed

lemmas obeys_outer = outside.obeys_intros obeys_session_begin obeys_with_session

lemma outer_db: "obeys outer m \<Longrightarrow> Q (w_db w) (w_db (snd (m w)))"
  by (drule obeysD [of _ _ w]) (simp add: outer_def)

end

subsection \<open>Atomicity\<close>

text \<open>Operations that leave the rollback point alone.\<close>

definition same_base :: "world \<Rightarrow> world \<Rightarrow> bool" where
  "same_base w w' \<longleftrightarrow> w_base w' = w_base w"

interpretation base: effect_relation same_base
  by unfold_locales (simp_all add: same_base_def)

lemma base_quiet: "obeys same_session m \<Longrightarrow> obeys same_base m"
  by (simp add: obeys_def same_session_def same_base_def)

lemma base_update_db: "obeys same_base (update_db f)"
  by (simp add: obeys_def update_db_def modify_s_def same_base_def)

lemma base_integer_column: "obeys same_base (integer_column P n)"
  by (simp add: obeys_def integer_column_def same_base_def)

lemma base_add_and_flush: "obeys same_base (add_and_flush clash ins)"
  by (simp add: obeys_def add_and_flush_def same_base_def)

lemmas base_store = base.obeys_intros base_quiet [OF quiet_tick] base_quiet [OF quiet_now]
  base_quiet [OF quiet_uuid4] base_quiet [OF quiet_execute] base_update_db base_add_and_flush

text \<open>A transaction that raises leaves the database as it was, whatever its body did.\<close>

lemma session_begin_rollback:
  assumes "obeys same_base body" and "session_begin body w = (Inl e, w')"
  shows "w_db w' = w_db w"
proof -
  let ?w = "w\<lparr>w_base := w_db w, w_session_ok := True\<rparr>"
  obtain r v where run: "body ?w = (r, v)" by fastforce
  then have "w_base v = w_db w" using obeysD_pair [OF assms(1) run] by (simp add: same_base_def)
  with run assms(2) show ?thesis by (cases r) (auto simp: session_begin_def)
qed

text \<open>One that returns ran its body to the end.\<close>

lemma session_begin_Inr:
  "session_begin body w = (Inr x, w') \<longleftrightarrow> body (w\<lparr>w_base := w_db w, w_session_ok := True\<rparr>) = (Inr x, w')"
  by (auto simp: session_begin_def split: prod.splits sum.splits)

end
