(* ===== verification/Schemas.thy ===== *)
theory Schemas
  imports Store
begin

text \<open>
  \<open>marcel/schemas.py\<close>: the request and response models.  A constructor of a model is a
  function from the raw field values (already of the annotated types) to the validated
  record or \<open>ValidationError\<close>; defaults are left to the caller.  Every text field is
  stripped first (\<open>str_strip_whitespace=True\<close>), then its constraints are checked, then the
  field validators run.
\<close>

subsection \<open>Field constraints\<close>

text \<open>\<open>str = Field(min_length=lo, max_length=hi)\<close>, with an optional pattern.\<close>

definition str_field :: "nat \<Rightarrow> nat \<Rightarrow> (string \<Rightarrow> bool) \<Rightarrow> string \<Rightarrow> string result" where
  "str_field lo hi p s =
     (let t = model_strip s
      in if lo \<le> length t \<and> length t \<le> hi \<and> p t then Inr t
         else Inl (ValidationError ''str''))"

definition opt_str_field :: "nat \<Rightarrow> nat \<Rightarrow> string option \<Rightarrow> string option result" where
  "opt_str_field lo hi v =
     (case v of None \<Rightarrow> Inr None
      | Some s \<Rightarrow> bindR (str_field lo hi (\<lambda>_. True) s) (\<lambda>t. Inr (Some t)))"

text \<open>\<open>^[A-Za-z0-9_.:-]+$\<close>\<close>

definition ident_char :: "char \<Rightarrow> bool" where
  "ident_char c \<longleftrightarrow> (65 \<le> code c \<and> code c \<le> 90) \<or> (97 \<le> code c \<and> code c \<le> 122)
     \<or> is_digit c \<or> c \<in> set ''_.:-''"

definition ident_pattern :: "string \<Rightarrow> bool" where
  "ident_pattern s \<longleftrightarrow> s \<noteq> [] \<and> list_all ident_char s"

definition int_field :: "int \<Rightarrow> int option \<Rightarrow> int \<Rightarrow> int result" where
  "int_field lo hi n =
     (if lo \<le> n \<and> (case hi of None \<Rightarrow> True | Some h \<Rightarrow> n \<le> h) then Inr n
      else Inl (ValidationError ''int''))"

text \<open>
  \<open>Decimal = Field(gt=0, max_digits=18, decimal_places=4)\<close>.  Trailing zeros do not count:
  the digits and places are those of the normalised number.  With both limits given, at
  most \<open>18 - 4\<close> digits may stand before the point.  The library normalises in the default context of
  28 digits, which leaves the value of a number of at most 28 digits alone; what it makes of a
  longer one is not modelled.
\<close>

fun strip_tens :: "nat \<Rightarrow> nat \<times> nat" where
  "strip_tens n =
     (if n = 0 \<or> n mod 10 \<noteq> 0 then (n, 0)
      else let r = strip_tens (n div 10) in (fst r, Suc (snd r)))"

declare strip_tens.simps [simp del]

definition amount_digits :: "dec \<Rightarrow> int \<times> int" where
  "amount_digits d =
     (let r = strip_tens (nat \<bar>coef d\<bar>);
          e = expo d + int (snd r);
          len = int (length (nat_str (fst r)));
          places = max 0 (- e)
      in (if 0 \<le> e then len + e else max len places, places))"

definition coef_digits :: "dec \<Rightarrow> nat" where
  "coef_digits d = length (nat_str (nat \<bar>coef d\<bar>))"

definition amount_field :: "dec \<Rightarrow> dec result" where
  "amount_field d =
     (let (digits, places) = amount_digits d
      in if 28 < coef_digits d then Inl OutsideModel
         else if 0 < d \<and> digits \<le> 18 \<and> places \<le> 4 \<and> digits - places \<le> 14 then Inr d
         else Inl (ValidationError ''decimal''))"

text \<open>The currency validators: upper case, letters only.\<close>

definition normalize_currency :: "string \<Rightarrow> string result" where
  "normalize_currency s =
     (case py_upper s of None \<Rightarrow> Inl OutsideModel
      | Some t \<Rightarrow> if py_isalpha t then Inr t else Inl (ValidationError ''currency''))"

definition currency_field :: "string \<Rightarrow> string result" where
  "currency_field s = bindR (str_field 3 3 (\<lambda>_. True) s) normalize_currency"

subsection \<open>Outcomes\<close>

text \<open>The outcome of a rule or decision, ordered by severity.\<close>

datatype outcome = Allow | RequireApproval | Deny

fun outcome_value :: "outcome \<Rightarrow> string" where
  "outcome_value Allow = ''allow''"
| "outcome_value RequireApproval = ''require_approval''"
| "outcome_value Deny = ''deny''"

definition outcome_of :: "string \<Rightarrow> outcome option" where
  "outcome_of s =
     (if s = ''allow'' then Some Allow else if s = ''require_approval'' then Some RequireApproval
      else if s = ''deny'' then Some Deny else None)"

lemma outcome_of_value [simp]: "outcome_of (outcome_value x) = Some x"
  by (cases x) (simp_all add: outcome_of_def)

instantiation outcome :: linorder
begin

fun severity :: "outcome \<Rightarrow> nat" where
  "severity Allow = 0"
| "severity RequireApproval = 1"
| "severity Deny = 2"

definition less_eq_outcome :: "outcome \<Rightarrow> outcome \<Rightarrow> bool" where
  "x \<le> y \<longleftrightarrow> severity x \<le> severity y"

definition less_outcome :: "outcome \<Rightarrow> outcome \<Rightarrow> bool" where
  "x < y \<longleftrightarrow> severity x < severity y"

instance
proof
  fix x y :: outcome
  show "x \<le> y \<Longrightarrow> y \<le> x \<Longrightarrow> x = y"
    by (cases x; cases y) (simp_all add: less_eq_outcome_def)
qed (auto simp: less_eq_outcome_def less_outcome_def)

end

lemma outcome_order [simp]:
  "Allow \<le> x" "x \<le> Deny" "x \<le> Allow \<longleftrightarrow> x = Allow" "Deny \<le> x \<longleftrightarrow> x = Deny"
  by (cases x; simp add: less_eq_outcome_def)+

subsection \<open>The models\<close>

record agent_create =
  ac_id :: string
  ac_display_name :: string
  ac_tenant_id :: string
  ac_allowed_actions :: "string list"
  ac_risk_tier :: string
  ac_metadata :: "(string \<times> json) list"

definition validate_actions :: "string list \<Rightarrow> string list result" where
  "validate_actions value =
     (let normalized = sorted_set (map py_strip (filter (\<lambda>a. py_strip a \<noteq> []) value))
      in if normalized = [] then Inl (ValidationError ''allowed_actions must contain at least one non-empty action'')
         else if list_ex (\<lambda>a. 256 < length a) normalized
         then Inl (ValidationError ''each allowed action must be 256 characters or fewer'')
         else Inr normalized)"

definition str_list_field :: "nat \<Rightarrow> nat \<Rightarrow> string list \<Rightarrow> string list result" where
  "str_list_field lo hi xs =
     (if lo \<le> length xs \<and> length xs \<le> hi then Inr (map model_strip xs)
      else Inl (ValidationError ''list''))"

definition risk_tiers :: "string list" where
  "risk_tiers = [''low'', ''standard'', ''high'', ''critical'']"

definition new_agent_create ::
  "string \<Rightarrow> string \<Rightarrow> string \<Rightarrow> string list \<Rightarrow> string \<Rightarrow> (string \<times> json) list \<Rightarrow> agent_create result" where
  "new_agent_create i display_name tenant_id allowed_actions risk_tier metadata =
     bindR (str_field 3 128 ident_pattern i) (\<lambda>i.
     bindR (str_field 1 256 (\<lambda>_. True) display_name) (\<lambda>display_name.
     bindR (str_field 1 128 (\<lambda>_. True) tenant_id) (\<lambda>tenant_id.
     bindR (bindR (str_list_field 1 200 allowed_actions) validate_actions) (\<lambda>allowed_actions.
     if risk_tier \<notin> set risk_tiers then Inl (ValidationError ''risk_tier'')
     else Inr \<lparr>ac_id = i, ac_display_name = display_name, ac_tenant_id = tenant_id,
       ac_allowed_actions = allowed_actions, ac_risk_tier = risk_tier, ac_metadata = metadata\<rparr>))))"

record budget_upsert =
  bp_limit_amount :: dec
  bp_currency :: string

definition new_budget_upsert :: "dec \<Rightarrow> string \<Rightarrow> budget_upsert result" where
  "new_budget_upsert limit_amount currency =
     bindR (amount_field limit_amount) (\<lambda>limit_amount.
     bindR (currency_field currency) (\<lambda>currency.
     Inr \<lparr>bp_limit_amount = limit_amount, bp_currency = currency\<rparr>))"

record execution_intent =
  in_agent_id :: string
  in_action :: string
  in_payload :: "(string \<times> json) list"
  in_requested_amount :: "dec option"
  in_currency :: "string option"
  in_idempotency_key :: string
  in_correlation_id :: "string option"

definition new_execution_intent ::
  "string \<Rightarrow> string \<Rightarrow> (string \<times> json) list \<Rightarrow> dec option \<Rightarrow> string option \<Rightarrow> string \<Rightarrow> string option
    \<Rightarrow> execution_intent result" where
  "new_execution_intent agent_id action payload requested_amount currency idempotency_key correlation_id =
     bindR (str_field 3 128 (\<lambda>_. True) agent_id) (\<lambda>agent_id.
     bindR (str_field 1 256 (\<lambda>_. True) action) (\<lambda>action.
     bindR (case requested_amount of None \<Rightarrow> Inr None
            | Some d \<Rightarrow> bindR (amount_field d) (\<lambda>d. Inr (Some d))) (\<lambda>requested_amount.
     bindR (case currency of None \<Rightarrow> Inr None
            | Some c \<Rightarrow> bindR (currency_field c) (\<lambda>c. Inr (Some c))) (\<lambda>currency.
     bindR (str_field 16 128 ident_pattern idempotency_key) (\<lambda>idempotency_key.
     bindR (opt_str_field 1 128 correlation_id) (\<lambda>correlation_id.
     Inr \<lparr>in_agent_id = agent_id, in_action = action, in_payload = payload,
       in_requested_amount = requested_amount, in_currency = currency,
       in_idempotency_key = idempotency_key, in_correlation_id = correlation_id\<rparr>))))))"

record policy_decision =
  pd_outcome :: outcome
  pd_risk_score :: int
  pd_reasons :: "string list"
  pd_policy_ids :: "string list"
  pd_remaining_budget :: "dec option"
  pd_hitl_transaction_id :: "string option"

definition new_policy_decision ::
  "outcome \<Rightarrow> int \<Rightarrow> string list \<Rightarrow> string list \<Rightarrow> dec option \<Rightarrow> string option \<Rightarrow> policy_decision result" where
  "new_policy_decision outcm risk_score reasons policy_ids remaining_budget hitl_transaction_id =
     bindR (int_field 0 (Some 100) risk_score) (\<lambda>risk_score.
     Inr \<lparr>pd_outcome = outcm, pd_risk_score = risk_score, pd_reasons = map model_strip reasons,
       pd_policy_ids = map model_strip policy_ids, pd_remaining_budget = remaining_budget,
       pd_hitl_transaction_id = map_option model_strip hitl_transaction_id\<rparr>)"

record policy_create =
  pc_name :: string
  pc_version :: int
  pc_enabled :: bool
  pc_priority :: int
  pc_definition :: "(string \<times> json) list"

definition new_policy_create ::
  "string \<Rightarrow> int \<Rightarrow> bool \<Rightarrow> int \<Rightarrow> (string \<times> json) list \<Rightarrow> policy_create result" where
  "new_policy_create name version enabled priority defn =
     bindR (str_field 1 256 (\<lambda>_. True) name) (\<lambda>name.
     bindR (int_field 1 None version) (\<lambda>version.
     bindR (int_field 0 (Some 1000000) priority) (\<lambda>priority.
     Inr \<lparr>pc_name = name, pc_version = version, pc_enabled = enabled, pc_priority = priority,
       pc_definition = defn\<rparr>)))"

record hitl_resolution =
  hr_decision :: string
  hr_comment :: "string option"

definition new_hitl_resolution :: "string \<Rightarrow> string option \<Rightarrow> hitl_resolution result" where
  "new_hitl_resolution decision comment =
     (if decision \<notin> {''approved'', ''rejected''} then Inl (ValidationError ''decision'')
      else bindR (opt_str_field 0 4000 comment) (\<lambda>comment.
        Inr \<lparr>hr_decision = decision, hr_comment = comment\<rparr>))"

record token_request =
  tr_subject :: string
  tr_roles :: "string list"

definition new_token_request :: "string \<Rightarrow> string list \<Rightarrow> token_request result" where
  "new_token_request subject roles =
     bindR (str_field 1 128 (\<lambda>_. True) subject) (\<lambda>subject.
     bindR (str_list_field 0 20 roles) (\<lambda>roles.
     Inr \<lparr>tr_subject = subject, tr_roles = roles\<rparr>))"

subsection \<open>\<open>model_dump(mode="json")\<close>\<close>

text \<open>The fields in declaration order; a \<open>Decimal\<close> becomes its text.\<close>

definition opt_json :: "('a \<Rightarrow> json) \<Rightarrow> 'a option \<Rightarrow> json" where
  "opt_json f v = (case v of None \<Rightarrow> JNull | Some x \<Rightarrow> f x)"

definition dec_json :: "dec \<Rightarrow> json" where
  "dec_json d = JStr (dec_str d)"

definition intent_json :: "execution_intent \<Rightarrow> json" where
  "intent_json i = JObj
     [(''agent_id'', JStr (in_agent_id i)), (''action'', JStr (in_action i)),
      (''payload'', JObj (in_payload i)), (''requested_amount'', opt_json dec_json (in_requested_amount i)),
      (''currency'', opt_json JStr (in_currency i)), (''idempotency_key'', JStr (in_idempotency_key i)),
      (''correlation_id'', opt_json JStr (in_correlation_id i))]"

definition decision_json :: "policy_decision \<Rightarrow> json" where
  "decision_json d = JObj
     [(''outcome'', JStr (outcome_value (pd_outcome d))), (''risk_score'', JInt (pd_risk_score d)),
      (''reasons'', JArr (map JStr (pd_reasons d))), (''policy_ids'', JArr (map JStr (pd_policy_ids d))),
      (''remaining_budget'', opt_json dec_json (pd_remaining_budget d)),
      (''hitl_transaction_id'', opt_json JStr (pd_hitl_transaction_id d))]"

subsection \<open>What the validators accept\<close>

lemma strip_tens_spec:
  "n = fst (strip_tens n) * 10 ^ snd (strip_tens n)"
  "0 < n \<Longrightarrow> fst (strip_tens n) mod 10 \<noteq> 0"
proof (induction n rule: strip_tens.induct)
  case (1 n)
  {
    case 1
    show ?case
    proof (cases "n = 0 \<or> n mod 10 \<noteq> 0")
      case True
      then show ?thesis by (simp add: strip_tens.simps [of n])
    next
      case False
      then have "n = 10 * (n div 10)" by auto
      also have "n div 10 = fst (strip_tens (n div 10)) * 10 ^ snd (strip_tens (n div 10))"
        using False "1.IH"(1) by blast
      finally show ?thesis using False by (simp add: strip_tens.simps [of n] Let_def)
    qed
  next
    case 2
    then show ?case
      using "1.IH"(2) by (cases "n mod 10 = 0") (auto simp: strip_tens.simps [of n] Let_def)
  }
qed

lemma powi_less_iff:
  fixes i j :: int
  shows "(10::rat) powi i < 10 powi j \<longleftrightarrow> i < j"
proof
  show "(10::rat) powi i < 10 powi j" if "i < j" using that by (intro power_int_strict_increasing) simp_all
  show "i < j" if "(10::rat) powi i < 10 powi j"
  proof (rule ccontr)
    assume "\<not> i < j"
    then have "(10::rat) powi j \<le> 10 powi i" by (intro power_int_increasing) simp_all
    with that show False by simp
  qed
qed

text \<open>The normalised form of a positive amount.\<close>

lemma amount_normal_form:
  assumes "0 < coef d"
  obtains q e where "dval d = of_nat q * 10 powi e" and "0 < q" and "q mod 10 \<noteq> 0"
    and "10 powi (int (length (nat_str q)) - 1 + e) \<le> dval d"
    and "dval d < 10 powi (int (length (nat_str q)) + e)"
    and "amount_digits d = (if 0 \<le> e then int (length (nat_str q)) + e
           else max (int (length (nat_str q))) (- e), max 0 (- e))"
proof -
  define r where "r = strip_tens (nat \<bar>coef d\<bar>)"
  let ?q = "fst r" and ?e = "expo d + int (snd r)"
  let ?len = "length (nat_str ?q)"
  have n: "nat \<bar>coef d\<bar> = ?q * 10 ^ snd r" unfolding r_def by (rule strip_tens_spec)
  have q0: "?q mod 10 \<noteq> 0" unfolding r_def using assms by (intro strip_tens_spec) simp
  then have q: "0 < ?q" by (cases "?q = 0") simp_all
  have "of_int (coef d) = (of_nat (nat \<bar>coef d\<bar>) :: rat)" using assms by simp
  then have val: "dval d = of_nat ?q * 10 powi ?e"
    by (simp add: dval_def sval_def pair_of_def n power_int_add)
  have P: "0 < (10::rat) powi ?e" by (simp add: zero_less_power_int)
  have "of_nat ?q < (10::rat) ^ ?len"
    using nat_str_less [of ?q] by (metis of_nat_less_iff of_nat_numeral of_nat_power)
  then have hi: "dval d < 10 powi (int ?len + ?e)"
    using P unfolding val by (simp add: power_int_add)
  have "10 ^ (?len - 1) \<le> ?q"
  proof (rule ccontr)
    assume "\<not> ?thesis"
    then have less: "?q < 10 ^ (?len - 1)" by simp
    show False
    proof (cases "?len - 1")
      case 0
      with less q show False by simp
    next
      case (Suc k)
      then have "?len \<le> Suc k" using less length_nat_str [of ?q k] by simp
      with Suc show False by simp
    qed
  qed
  then have "(10::rat) ^ (?len - 1) \<le> of_nat ?q"
    by (metis of_nat_le_iff of_nat_numeral of_nat_power)
  moreover have "(10::rat) powi (int ?len - 1) = 10 ^ (?len - 1)"
  proof -
    have "1 \<le> ?len" by (simp add: Suc_le_eq)
    then have "int ?len - 1 = int (?len - 1)" by simp
    then show ?thesis by (simp only: power_int_of_nat)
  qed
  ultimately have lo: "10 powi (int ?len - 1 + ?e) \<le> dval d"
    using P unfolding val by (simp add: power_int_add)
  show thesis
    by (rule that [OF val q q0 lo hi]) (simp add: amount_digits_def Let_def r_def [symmetric])
qed

lemma dval_pos_coef: "0 < dval d \<longleftrightarrow> 0 < coef d"
  using sval_sign(3) [of 10 "pair_of d"] by (simp add: dval_def pair_of_def)

text \<open>
  The accepted amounts are exactly the positive multiples of a ten-thousandth below
  \<open>10 ^ 14\<close>: what a \<open>Numeric(18, 4)\<close> column can hold.
\<close>

lemma amount_field_iff:
  "amount_field d = Inr d \<longleftrightarrow> coef_digits d \<le> 28 \<and> 0 < dval d \<and> dval d < 10 ^ 14 \<and> dval d * 10000 \<in> \<int>"
proof (cases "0 < coef d")
  case False
  then show ?thesis
    by (simp add: amount_field_def dec_less_iff dval_pos_coef split: prod.splits)
next
  case True
  then obtain q e where val: "dval d = of_nat q * 10 powi e" and q: "0 < q" "q mod 10 \<noteq> 0"
    and lo: "10 powi (int (length (nat_str q)) - 1 + e) \<le> dval d"
    and hi: "dval d < 10 powi (int (length (nat_str q)) + e)"
    and digits: "amount_digits d = (if 0 \<le> e then int (length (nat_str q)) + e
           else max (int (length (nat_str q))) (- e), max 0 (- e))"
    by (rule amount_normal_form)
  let ?len = "int (length (nat_str q))"
  have p14: "(10::rat) ^ 14 = 10 powi 14" by simp
  have mult: "dval d * 10000 \<in> \<int> \<longleftrightarrow> - 4 \<le> e"
  proof
    assume "- 4 \<le> e"
    then have "dval d * 10000 = of_nat (q * 10 ^ nat (e + 4))"
      unfolding val using power_int_add [of "10::rat" e 4] by (simp add: power_int_def)
    then show "dval d * 10000 \<in> \<int>" by (metis Ints_of_nat)
  next
    assume "dval d * 10000 \<in> \<int>"
    then obtain m where m: "of_nat q * 10 powi e * 10000 = (of_int m :: rat)"
      unfolding val by (rule Ints_cases)
    show "- 4 \<le> e"
    proof (rule ccontr)
      assume "\<not> - 4 \<le> e"
      then have "int (nat (- e - 5)) = - e - 5" by simp
      then obtain k where k: "- e = int k + 5" by (metis add.commute diff_add_cancel)
      have "(10::rat) powi e = 1 / 10 powi (- e)"
        using power_int_minus_divide [of "10::rat" "- e"] by simp
      also have "(10::rat) powi (- e) = 10 ^ k * 100000" unfolding k by (simp add: power_int_add)
      finally have "(10::rat) powi e = 1 / (10 ^ k * 100000)" .
      then have one: "(10::rat) powi e * (10 ^ k * 100000) = 1" by simp
      have "(of_nat q :: rat) = of_nat q * (10 powi e * (10 ^ k * 100000))" unfolding one by simp
      also have "\<dots> = (of_nat q * 10 powi e * 10000) * (10 ^ k * 10)" by simp
      also have "\<dots> = of_int m * (10 ^ k * 10)" unfolding m ..
      finally have "of_nat q = (of_int (m * 10 ^ Suc k) :: rat)" by (simp add: mult.commute)
      then have "int q = m * 10 ^ Suc k" by (metis of_int_eq_iff of_int_of_nat_eq)
      then have "int q mod 10 = 0" by simp
      then have "q mod 10 = 0" by presburger
      with q show False by simp
    qed
  qed
  have upper: "dval d < 10 ^ 14 \<longleftrightarrow> ?len + e \<le> 14"
  proof
    assume "dval d < 10 ^ 14"
    then have "(10::rat) powi (?len - 1 + e) < 10 powi 14" using lo p14 by linarith
    then show "?len + e \<le> 14" by (simp only: powi_less_iff)
  next
    assume "?len + e \<le> 14"
    then have "(10::rat) powi (?len + e) \<le> 10 powi 14" by (intro power_int_increasing) simp_all
    then show "dval d < 10 ^ 14" using hi p14 by linarith
  qed
  have pos: "0 < dval d" using True dval_pos_coef by blast
  show ?thesis
    using pos upper mult digits
    by (cases "0 \<le> e") (auto simp: amount_field_def dec_less_iff max_def)
qed

lemma amount_field_result: "amount_field d = Inr x \<Longrightarrow> x = d"
  by (auto simp: amount_field_def split: prod.splits if_splits)

lemma amount_field_money: "amount_field d = Inr x \<Longrightarrow> money x \<and> 0 < dval x \<and> dval x < 10 ^ 14"
  using amount_field_result [of d x] amount_field_iff [of d] by (auto simp: money_def)

lemma validate_actions_result:
  assumes "validate_actions xs = Inr ys"
  shows "sorted ys \<and> distinct ys \<and> ys \<noteq> []
    \<and> set ys = py_strip ` set xs - {[]} \<and> (\<forall>y \<in> set ys. length y \<le> 256)"
  using assms sorted_set_sorted sorted_set_distinct
  by (auto simp: validate_actions_def Let_def list_ex_iff not_less split: if_splits)

lemma validate_actions_idem:
  assumes "validate_actions xs = Inr ys"
  shows "validate_actions ys = Inr ys"
proof -
  note ys = validate_actions_result [OF assms]
  then have "\<forall>y \<in> set ys. py_strip y = y \<and> y \<noteq> []" by (auto simp: py_strip_def)
  then have "map py_strip (filter (\<lambda>a. py_strip a \<noteq> []) ys) = ys"
    by (simp add: map_idI filter_id_conv)
  moreover have "sorted_set ys = ys"
    using ys by (simp add: sorted_set_def distinct_remdups_id sorted_sort_id)
  ultimately show ?thesis using ys by (auto simp: validate_actions_def Let_def list_ex_iff not_less)
qed

subsection \<open>Properties\<close>

text \<open>
  C29: The amount fields accept an amount of at most 28 digits exactly when it is positive, below
  \<open>10 ^ 14\<close> and has at most four decimal places, and hand it on unchanged; trailing zeros and the
  exponent do not matter.
\<close>

theorem amount_field_accepts:
  assumes "coef_digits d \<le> 28"
  shows "amount_field d = (if 0 < dval d \<and> dval d < 10 ^ 14 \<and> dval d * 10000 \<in> \<int>
    then Inr d else Inl (ValidationError ''decimal''))"
proof -
  have "amount_field d = Inr d \<or> amount_field d = Inl (ValidationError ''decimal'')"
    using assms by (auto simp: amount_field_def split: prod.splits)
  then show ?thesis using assms amount_field_iff [of d] by auto
qed

text \<open>Six places are accepted when the last two are zeros, and not when the fifth is a one.\<close>

lemma amount_field_accepts_witness:
  "amount_field (Dec 12500000 (- 6)) = Inr (Dec 12500000 (- 6))
   \<and> amount_field (Dec 100001 (- 5)) = Inl (ValidationError ''decimal'')"
proof -
  have digits: "coef_digits (Dec 12500000 (- 6)) \<le> 28" "coef_digits (Dec 100001 (- 5)) \<le> 28"
    using length_nat_str [of 12500000 27] length_nat_str [of 100001 27] by (simp_all add: coef_digits_def)
  have val: "dval (Dec 12500000 (- 6)) = 25 / 2" "dval (Dec 100001 (- 5)) = 100001 / 100000"
    by (simp_all add: dval_def sval_def power_int_def power_divide)
  have "(100001 / 10 :: rat) \<notin> \<int>"
  proof
    assume "(100001 / 10 :: rat) \<in> \<int>"
    then obtain n where "100001 / 10 = (of_int n :: rat)" by (rule Ints_cases)
    then have "of_int 100001 = (of_int (n * 10) :: rat)" by simp
    then have "100001 = n * 10" by (simp only: of_int_eq_iff)
    then show False by presburger
  qed
  then show ?thesis
    using amount_field_accepts [OF digits(1)] amount_field_accepts [OF digits(2)] by (simp add: val)
qed

text \<open>
  C33: The normalised list of allowed actions is sorted, without duplicates, not empty, holds
  exactly the stripped actions that are not empty, each of at most 256 characters, and
  normalising it again changes nothing.
\<close>

theorem normalized_actions:
  assumes "validate_actions xs = Inr ys"
  shows "sorted ys \<and> distinct ys \<and> ys \<noteq> [] \<and> set ys = py_strip ` set xs - {[]}
    \<and> (\<forall>y \<in> set ys. length y \<le> 256) \<and> validate_actions ys = Inr ys"
  using validate_actions_result [OF assms] validate_actions_idem [OF assms] by blast

lemma normalized_actions_witness: "validate_actions [''pay'', ''read''] = Inr [''pay'', ''read'']"
proof -
  have "validate_actions ['' read'', ''pay'', ''pay '', []] = Inr [''pay'', ''read'']" by code_simp
  then show ?thesis using normalized_actions by blast
qed

text \<open>
  The length of a currency is checked before it is put in upper case, which can make it
  longer: the three characters sharp s, a, b are accepted and stored as the four letters SSAB.
\<close>

theorem currency_grows: "currency_field [char_of (223 :: nat), CHR ''a'', CHR ''b''] = Inr ''SSAB''"
  by code_simp

end
