(* ===== verification/Samples.thy ===== *)
theory Samples
  imports Schemas
begin

text \<open>
  Concrete values the development evaluates its theorems on: one agent, one budget, one
  policy, an intent, a platform and a world that holds them.
\<close>

definition sample_time :: datetime where
  "sample_time = Datetime 1700000000000000 True"

definition sample_agent :: agent where
  "sample_agent = \<lparr>ag_id = ''agent-1'', ag_display_name = ''Buyer'', ag_tenant_id = ''acme'',
     ag_allowed_actions = [''pay''], ag_risk_tier = ''standard'', ag_active = True,
     ag_metadata_json = JObj [], ag_created_at = sample_time, ag_updated_at = sample_time\<rparr>"

definition sample_budget :: budget where
  "sample_budget = \<lparr>bu_id = ''budget-1'', bu_agent_id = ''agent-1'', bu_currency = ''USD'',
     bu_limit_amount = Dec 100 0, bu_consumed_amount = Dec 0 0, bu_version = 1, bu_active = True,
     bu_created_at = sample_time, bu_updated_at = sample_time\<rparr>"

text \<open>Payments above 50 need an approval.\<close>

definition sample_rule :: json where
  "sample_rule = JObj [(''when'', JObj [(''amount_gt'', JInt 50)]), (''effect'', JStr ''require_approval''),
     (''risk_score'', JInt 60)]"

definition sample_policy :: policy where
  "sample_policy = \<lparr>po_id = ''policy-1'', po_name = ''large payments'', po_version = 1, po_enabled = True,
     po_priority = 10, po_definition = JObj [(''rules'', JArr [sample_rule])],
     po_created_at = sample_time, po_updated_at = sample_time\<rparr>"

definition sample_policy_2 :: policy where
  "sample_policy_2 = sample_policy\<lparr>po_id := ''policy-2'', po_name := ''no other tenant'', po_priority := 20,
     po_definition := JObj [(''rules'', JArr [JObj [(''when'', JObj [(''tenant_ids'', JArr [JStr ''other''])])]])]\<rparr>"

definition sample_database :: database where
  "sample_database = \<lparr>agents = [sample_agent], budgets = [sample_budget],
     policies = [sample_policy_2, sample_policy], audit_logs = [], hitl_transactions = []\<rparr>"

definition sample_upsert :: budget_upsert where
  "sample_upsert = \<lparr>bp_limit_amount = Dec 250 0, bp_currency = ''USD''\<rparr>"

definition sample_world :: world where
  "sample_world = \<lparr>w_db = sample_database, w_base = sample_database, w_session_ok = True,
     w_kv = (\<lambda>_. None), w_published = [], w_clock = (\<lambda>n. 1700000000000000 + int n * 1000), w_ticks = 0,
     w_uuid = (\<lambda>n. ''id-'' @ nat_str n), w_uuids = 0\<rparr>"

text \<open>A payment of the given amount in US dollars.\<close>

definition sample_intent :: "dec \<Rightarrow> execution_intent" where
  "sample_intent x = \<lparr>in_agent_id = ''agent-1'', in_action = ''pay'', in_payload = [(''to'', JStr ''bob'')],
     in_requested_amount = Some x, in_currency = Some ''USD'',
     in_idempotency_key = ''key-000000000001'', in_correlation_id = None\<rparr>"

text \<open>
  A platform for the witnesses: the digest of a text is the text itself in hexadecimal, and
  the store gives back what was put in.  The second platform drops the time zone, as a
  database without zones does.
\<close>

definition hex_text :: "string \<Rightarrow> string" where
  "hex_text s = concat (map (\<lambda>c. hex2 (code c)) s)"

definition sample_platform :: platform where
  "sample_platform = \<lparr>sha256_hex = hex_text, hmac_sha256_hex = (\<lambda>key s. hex_text (key @ s)),
     stored_time = (\<lambda>t. t), stored_json = (\<lambda>j. j),
     fits_integer = (\<lambda>n. - (2 ^ 31) \<le> n \<and> n < 2 ^ 31)\<rparr>"

definition naive_platform :: platform where
  "naive_platform = sample_platform\<lparr>stored_time := \<lambda>t. Datetime (micros t) False\<rparr>"

definition sample_key :: string where
  "sample_key = ''0123456789abcdef0123456789abcdef''"

end
