(* ===== verification/Service_Config.thy ===== *)
theory Service_Config
  imports Samples "HOL-Library.Sublist"
begin

text \<open>
  \<open>marcel/config.py\<close>: the settings and their validation, and the options with which
  \<open>create_engine_and_sessionmaker\<close> of \<open>marcel/models/database.py\<close> opens the database.
\<close>

record settings =
  environment :: string
  app_name :: string
  app_version :: string
  log_level :: string
  database_url :: string
  database_pool_size :: int
  database_max_overflow :: int
  redis_url :: string
  redis_socket_timeout_seconds :: rat
  redis_health_check_interval_seconds :: int
  jwt_secret :: string
  jwt_algorithm :: string
  jwt_issuer :: string
  jwt_audience :: string
  jwt_expiry_seconds :: int
  audit_hmac_key :: string
  approval_timeout_seconds :: int
  max_request_body_bytes :: int
  cors_origins :: "string list"

definition literal_field :: "string list \<Rightarrow> string \<Rightarrow> string result" where
  "literal_field allowed v = (if v \<in> set allowed then Inr v else Inl (ValidationError ''literal''))"

definition rat_field :: "rat \<Rightarrow> rat \<Rightarrow> rat \<Rightarrow> rat result" where
  "rat_field lo hi v = (if lo < v \<and> v \<le> hi then Inr v else Inl (ValidationError ''float''))"

definition secret_field :: "nat \<Rightarrow> string \<Rightarrow> string result" where
  "secret_field lo v = (if lo \<le> length v then Inr v else Inl (ValidationError ''secret''))"

definition validate_database_url :: "string \<Rightarrow> string result" where
  "validate_database_url value =
     (if prefix ''sqlite+aiosqlite://'' value \<or> prefix ''postgresql+asyncpg://'' value then Inr value
      else Inl (ValidationError ''database_url must use sqlite+aiosqlite or postgresql+asyncpg''))"

text \<open>\<open>url_scheme\<close> stands for \<open>AnyUrl(value).scheme\<close>; \<open>None\<close> when the library rejects the text.\<close>

definition validate_redis_url :: "(string \<Rightarrow> string option) \<Rightarrow> string \<Rightarrow> string result" where
  "validate_redis_url url_scheme value =
     (case url_scheme value of None \<Rightarrow> Inl (ValidationError ''url'')
      | Some scheme \<Rightarrow> if scheme \<notin> {''redis'', ''rediss''}
          then Inl (ValidationError ''redis_url must use redis or rediss'') else Inr value)"

definition validate_cors_origins :: "string list \<Rightarrow> string list result" where
  "validate_cors_origins value =
     (if value = [] then Inl (ValidationError ''cors_origins must contain at least one origin'') else Inr value)"

text \<open>The validation of the fields, in order; a validator only checks, it never changes a value.\<close>

definition new_settings :: "(string \<Rightarrow> string option) \<Rightarrow> settings \<Rightarrow> settings result" where
  "new_settings url_scheme s =
     bindR (literal_field [''development'', ''test'', ''staging'', ''production''] (environment s)) (\<lambda>_.
     bindR (literal_field [''DEBUG'', ''INFO'', ''WARNING'', ''ERROR'', ''CRITICAL''] (log_level s)) (\<lambda>_.
     bindR (validate_database_url (database_url s)) (\<lambda>_.
     bindR (int_field 1 (Some 100) (database_pool_size s)) (\<lambda>_.
     bindR (int_field 0 (Some 100) (database_max_overflow s)) (\<lambda>_.
     bindR (validate_redis_url url_scheme (redis_url s)) (\<lambda>_.
     bindR (rat_field 0 30 (redis_socket_timeout_seconds s)) (\<lambda>_.
     bindR (int_field 1 (Some 300) (redis_health_check_interval_seconds s)) (\<lambda>_.
     bindR (secret_field 32 (jwt_secret s)) (\<lambda>_.
     bindR (literal_field [''HS256'', ''HS384'', ''HS512''] (jwt_algorithm s)) (\<lambda>_.
     bindR (int_field 60 (Some 86400) (jwt_expiry_seconds s)) (\<lambda>_.
     bindR (secret_field 32 (audit_hmac_key s)) (\<lambda>_.
     bindR (int_field 30 (Some 86400) (approval_timeout_seconds s)) (\<lambda>_.
     bindR (int_field 1024 (Some 10485760) (max_request_body_bytes s)) (\<lambda>_.
     bindR (validate_cors_origins (cors_origins s)) (\<lambda>_. Inr s)))))))))))))))"

definition is_production :: "settings \<Rightarrow> bool" where
  "is_production s \<longleftrightarrow> environment s = ''production''"

text \<open>
  \<open>get_settings\<close> with its \<open>lru_cache\<close>: the cache holds the settings of the first call that returned; a
  call that raised is not remembered.  \<open>env\<close> is what the environment holds at the time of the call.
\<close>

definition get_settings :: "(string \<Rightarrow> string option) \<Rightarrow> settings \<Rightarrow> (settings option, settings) eff" where
  "get_settings url_scheme env cache =
     (case cache of Some s \<Rightarrow> (Inr s, Some s)
      | None \<Rightarrow> (case new_settings url_scheme env of Inl e \<Rightarrow> (Inl e, None) | Inr s \<Rightarrow> (Inr s, Some s)))"

text \<open>The pool options are only given for a database that is not SQLite.\<close>

record engine_options =
  eo_url :: string
  eo_check_same_thread :: "bool option"
  eo_pool_size :: "int option"
  eo_max_overflow :: "int option"
  eo_echo :: bool
  eo_pool_pre_ping :: bool
  eo_future :: bool
  eo_expire_on_commit :: bool

definition create_engine_and_sessionmaker :: "settings \<Rightarrow> engine_options" where
  "create_engine_and_sessionmaker s =
     (let sqlite = prefix ''sqlite+'' (database_url s)
      in \<lparr>eo_url = database_url s,
          eo_check_same_thread = (if sqlite then Some False else None),
          eo_pool_size = (if sqlite then None else Some (database_pool_size s)),
          eo_max_overflow = (if sqlite then None else Some (database_max_overflow s)),
          eo_echo = False, eo_pool_pre_ping = True, eo_future = True, eo_expire_on_commit = False\<rparr>)"

text \<open>What the rest of the service relies on.\<close>

lemma int_field_Inr: "int_field lo (Some hi) n = Inr m \<longleftrightarrow> m = n \<and> lo \<le> n \<and> n \<le> hi"
  by (auto simp: int_field_def)

lemma secret_field_Inr: "secret_field lo v = Inr x \<longleftrightarrow> x = v \<and> lo \<le> length v"
  by (auto simp: secret_field_def)

lemma literal_field_Inr: "literal_field xs v = Inr x \<longleftrightarrow> x = v \<and> v \<in> set xs"
  by (auto simp: literal_field_def)

lemma new_settings_Inr:
  assumes "new_settings url_scheme s = Inr t"
  shows "t = s" and "log_level s \<in> {''DEBUG'', ''INFO'', ''WARNING'', ''ERROR'', ''CRITICAL''}"
    and "32 \<le> length (jwt_secret s)" and "32 \<le> length (audit_hmac_key s)"
    and "60 \<le> jwt_expiry_seconds s" and "jwt_expiry_seconds s \<le> 86400"
    and "30 \<le> approval_timeout_seconds s" and "approval_timeout_seconds s \<le> 86400"
    and "jwt_algorithm s \<in> {''HS256'', ''HS384'', ''HS512''}"
    and "1 \<le> database_pool_size s" and "database_pool_size s \<le> 100"
    and "validate_database_url (database_url s) = Inr (database_url s)"
  using assms
  unfolding new_settings_def bindR_eq_Inr int_field_Inr secret_field_Inr literal_field_Inr
  by (auto simp: validate_database_url_def split: if_splits)

text \<open>Whatever the environment holds later, every call gives the settings of the first one.\<close>

lemma get_settings_stable:
  assumes "get_settings url_scheme env cache = (Inr s, cache')"
  shows "get_settings url_scheme env' cache' = (Inr s, cache')"
  using assms by (auto simp: get_settings_def split: option.splits sum.splits)

definition sample_settings :: settings where
  "sample_settings = \<lparr>environment = ''test'', app_name = ''Marcel Arch'', app_version = ''1.0.0'',
     log_level = ''INFO'', database_url = ''sqlite+aiosqlite:///./marcel_arch.db'',
     database_pool_size = 10, database_max_overflow = 20, redis_url = ''redis://localhost:6379/0'',
     redis_socket_timeout_seconds = 2, redis_health_check_interval_seconds = 30,
     jwt_secret = ''0123456789abcdef0123456789abcdef'', jwt_algorithm = ''HS256'',
     jwt_issuer = ''marcel-arch'', jwt_audience = ''marcel-arch-clients'', jwt_expiry_seconds = 900,
     audit_hmac_key = ''fedcba9876543210fedcba9876543210'', approval_timeout_seconds = 900,
     max_request_body_bytes = 1048576, cors_origins = [''http://localhost:3000'']\<rparr>"

definition sample_scheme :: "string \<Rightarrow> string option" where
  "sample_scheme s = (let t = takeWhile (\<lambda>c. c \<noteq> CHR '':'') s in if t = s then None else Some t)"

lemma sample_settings_valid: "new_settings sample_scheme sample_settings = Inr sample_settings"
  by code_simp

subsection \<open>Properties\<close>

text \<open>
  Settings that pass validation are the given ones, carry a token secret and an audit key of
  at least 32 characters (so the audit signer accepts its key), a token life of 60 to 86400
  seconds and an approval timeout of 30 to 86400 seconds, and open the database either as
  SQLite without a connection pool or as PostgreSQL with a pool of 1 to 100 connections.
\<close>

theorem validated_settings:
  assumes "new_settings url_scheme s = Inr t"
  shows "t = s \<and> 32 \<le> length (jwt_secret s) \<and> 32 \<le> length (audit_hmac_key s)
    \<and> jwt_expiry_seconds s \<in> {60..86400} \<and> approval_timeout_seconds s \<in> {30..86400}
    \<and> (prefix ''sqlite+aiosqlite://'' (database_url s) \<and> eo_pool_size (create_engine_and_sessionmaker s) = None
       \<or> prefix ''postgresql+asyncpg://'' (database_url s)
         \<and> (\<exists>n \<in> {1..100}. eo_pool_size (create_engine_and_sessionmaker s) = Some n))"
proof -
  note v = new_settings_Inr [OF assms]
  have "prefix ''sqlite+aiosqlite://'' u \<Longrightarrow> prefix ''sqlite+'' u" for u by (auto simp: prefix_def)
  moreover have "prefix ''postgresql+asyncpg://'' u \<Longrightarrow> \<not> prefix ''sqlite+'' u" for u by (auto simp: prefix_def)
  ultimately show ?thesis
    using v by (auto simp: validate_database_url_def create_engine_and_sessionmaker_def Let_def split: if_splits)
qed

lemma validated_settings_witness: "32 \<le> length (jwt_secret sample_settings)"
  using validated_settings [OF sample_settings_valid] by blast

end
