(* ===== verification/Auth.thy ===== *)
theory Auth
  imports Service_Config "HOL-Library.Countable"
begin

text \<open>
  \<open>marcel/security/auth.py\<close>: issuing tokens, and the two dependencies that guard the
  endpoints.  The JWT library is a parameter.
\<close>

subsection \<open>Tokens\<close>

record jwt_claims =
  cl_sub :: string
  cl_roles :: "string list"
  cl_iss :: string
  cl_aud :: string
  cl_iat :: datetime
  cl_nbf :: datetime
  cl_exp :: datetime

text \<open>
  \<open>jwt_encode claims secret algorithm\<close>, and \<open>jwt_decode token secret algorithms audience issuer
  required now\<close>, \<open>None\<close> for an \<open>InvalidTokenError\<close>; \<open>now\<close> is the clock the library reads.
\<close>

record jwt_library =
  jwt_encode :: "jwt_claims \<Rightarrow> string \<Rightarrow> string \<Rightarrow> string"
  jwt_decode :: "string \<Rightarrow> string \<Rightarrow> string list \<Rightarrow> string \<Rightarrow> string \<Rightarrow> string list \<Rightarrow> int
    \<Rightarrow> (string \<times> json) list option"

definition create_access_token :: "jwt_library \<Rightarrow> settings \<Rightarrow> string \<Rightarrow> string list \<Rightarrow> string op" where
  "create_access_token J settings subject roles =
     bindE now_utc (\<lambda>now.
     ret (jwt_encode J
       \<lparr>cl_sub = subject, cl_roles = sorted_set roles, cl_iss = jwt_issuer settings,
         cl_aud = jwt_audience settings, cl_iat = now, cl_nbf = now,
         cl_exp = plus_seconds now (jwt_expiry_seconds settings)\<rparr>
       (jwt_secret settings) (jwt_algorithm settings)))"

subsection \<open>Dependencies\<close>

type_synonym principal = "(string \<times> json) list"

text \<open>The parsed \<open>Authorization\<close> header: scheme and credentials.\<close>

type_synonym credentials = "(string \<times> string) option"

definition is_string_list :: "json \<Rightarrow> bool" where
  "is_string_list v = (case v of JArr xs \<Rightarrow> list_all (\<lambda>x. case x of JStr _ \<Rightarrow> True | _ \<Rightarrow> False) xs | _ \<Rightarrow> False)"

definition is_string :: "json \<Rightarrow> bool" where
  "is_string v = (case v of JStr _ \<Rightarrow> True | _ \<Rightarrow> False)"

definition required_claims :: "string list" where
  "required_claims = [''sub'', ''exp'', ''iat'', ''nbf'', ''iss'', ''aud'']"

definition require_principal :: "jwt_library \<Rightarrow> settings \<Rightarrow> credentials \<Rightarrow> principal op" where
  "require_principal J settings credentials =
     (case credentials of
        None \<Rightarrow> raise (HTTPException 401 ''Bearer token required'')
      | Some (scheme, token) \<Rightarrow>
          if py_lower scheme \<noteq> ''bearer'' then raise (HTTPException 401 ''Bearer token required'')
          else bindE tick (\<lambda>now.
            case jwt_decode J token (jwt_secret settings) [jwt_algorithm settings]
                   (jwt_audience settings) (jwt_issuer settings) required_claims now of
              None \<Rightarrow> raise (HTTPException 401 ''Invalid or expired token'')
            | Some payload \<Rightarrow>
                if \<not> is_string (dict_get payload ''sub'' JNull)
                   \<or> \<not> is_string_list (dict_get payload ''roles'' (JArr []))
                then raise (HTTPException 401 ''Malformed token claims'')
                else ret payload))"

text \<open>The roles of a principal that passed \<open>require_principal\<close>, and its subject.\<close>

definition principal_roles :: "principal \<Rightarrow> string list" where
  "principal_roles payload =
     (case dict_get payload ''roles'' (JArr []) of
        JArr xs \<Rightarrow> concat (map (\<lambda>x. case x of JStr s \<Rightarrow> [s] | _ \<Rightarrow> []) xs) | _ \<Rightarrow> [])"

definition require_role :: "jwt_library \<Rightarrow> settings \<Rightarrow> string list \<Rightarrow> credentials \<Rightarrow> principal op" where
  "require_role J settings accepted_roles credentials =
     bindE (require_principal J settings credentials) (\<lambda>principal.
     if list_ex (\<lambda>r. r \<in> set accepted_roles) (principal_roles principal) then ret principal
     else raise (HTTPException 403 ''Insufficient role''))"

text \<open>\<open>str(principal["sub"])\<close>\<close>

definition actor :: "principal \<Rightarrow> string" where
  "actor payload = py_str (dict_get payload ''sub'' JNull)"

subsection \<open>What a token grants\<close>

text \<open>
  The contract of the JWT library: a token decodes to the claims it was made of, the times as
  whole seconds, under the same secret, algorithm, audience and issuer, from its issue until
  its expiry; after the expiry it does not decode.
\<close>

definition claims_json :: "jwt_claims \<Rightarrow> (string \<times> json) list" where
  "claims_json c = [(''sub'', JStr (cl_sub c)), (''roles'', JArr (map JStr (cl_roles c))),
     (''iss'', JStr (cl_iss c)), (''aud'', JStr (cl_aud c)),
     (''iat'', JInt (micros (cl_iat c) div 1000000)), (''nbf'', JInt (micros (cl_nbf c) div 1000000)),
     (''exp'', JInt (micros (cl_exp c) div 1000000))]"

definition jwt_contract :: "jwt_library \<Rightarrow> bool" where
  "jwt_contract J \<longleftrightarrow> (\<forall>c secret alg now.
     let token = jwt_encode J c secret alg;
         decode = jwt_decode J token secret [alg] (cl_aud c) (cl_iss c) required_claims now;
         expiry = micros (cl_exp c) div 1000000 * 1000000
     in (micros (cl_iat c) \<le> now \<and> micros (cl_nbf c) \<le> now \<and> now < expiry \<longrightarrow> decode = Some (claims_json c))
        \<and> (expiry \<le> now \<longrightarrow> decode = None))"

lemma quiet_require_principal: "obeys same_session (require_principal J settings credentials)"
  unfolding require_principal_def case_prod_beta by (intro quiet_store)

lemma quiet_require_role: "obeys same_session (require_role J settings accepted credentials)"
  unfolding require_role_def by (intro quiet_store quiet_require_principal)

lemma claims_json_get [simp]:
  "dict_get (claims_json c) ''sub'' v = JStr (cl_sub c)"
  "dict_get (claims_json c) ''roles'' v = JArr (map JStr (cl_roles c))"
  by (simp_all add: dict_get_def claims_json_def)

lemma claims_ok [simp]: "is_string (JStr s)" "is_string_list (JArr (map JStr xs))"
  by (simp_all add: is_string_def is_string_list_def list_all_iff)

lemma principal_roles_claims [simp]: "principal_roles (claims_json c) = cl_roles c"
  by (simp add: principal_roles_def comp_def)

text \<open>Decoding a token that the service issued at \<open>t0\<close>, when the clock shows \<open>t1\<close>.\<close>

lemma issued_token:
  assumes "create_access_token J s subject roles w = (Inr token, w1)" and "jwt_contract J"
  defines "t0 \<equiv> w_clock w (w_ticks w)"
  defines "c \<equiv> \<lparr>cl_sub = subject, cl_roles = sorted_set roles, cl_iss = jwt_issuer s,
         cl_aud = jwt_audience s, cl_iat = Datetime t0 True, cl_nbf = Datetime t0 True,
         cl_exp = plus_seconds (Datetime t0 True) (jwt_expiry_seconds s)\<rparr>"
  shows "t0 \<le> t1 \<Longrightarrow> t1 < (t0 div 1000000 + jwt_expiry_seconds s) * 1000000 \<Longrightarrow>
      jwt_decode J token (jwt_secret s) [jwt_algorithm s] (jwt_audience s) (jwt_issuer s) required_claims t1
        = Some (claims_json c)"
    and "(t0 div 1000000 + jwt_expiry_seconds s) * 1000000 \<le> t1 \<Longrightarrow>
      jwt_decode J token (jwt_secret s) [jwt_algorithm s] (jwt_audience s) (jwt_issuer s) required_claims t1 = None"
proof -
  have token: "token = jwt_encode J c (jwt_secret s) (jwt_algorithm s)"
    using assms(1) by (simp add: create_access_token_def now_utc_def tick_def bindE_def ret_def c_def t0_def)
  have "micros (cl_exp c) div 1000000 = t0 div 1000000 + jwt_expiry_seconds s"
    by (simp add: c_def plus_seconds_def)
  then show "t0 \<le> t1 \<Longrightarrow> t1 < (t0 div 1000000 + jwt_expiry_seconds s) * 1000000 \<Longrightarrow>
      jwt_decode J token (jwt_secret s) [jwt_algorithm s] (jwt_audience s) (jwt_issuer s) required_claims t1
        = Some (claims_json c)"
    and "(t0 div 1000000 + jwt_expiry_seconds s) * 1000000 \<le> t1 \<Longrightarrow>
      jwt_decode J token (jwt_secret s) [jwt_algorithm s] (jwt_audience s) (jwt_issuer s) required_claims t1 = None"
    using assms(2) [unfolded jwt_contract_def Let_def, rule_format, of c t1 "jwt_secret s" "jwt_algorithm s"]
    unfolding token by (simp_all add: c_def)
qed

lemma require_principal_decoded:
  assumes "py_lower scheme = ''bearer''"
    and "jwt_decode J token (jwt_secret s) [jwt_algorithm s] (jwt_audience s) (jwt_issuer s)
      required_claims (w_clock w (w_ticks w)) = Some (claims_json c)"
  shows "require_principal J s (Some (scheme, token)) w = (Inr (claims_json c), w\<lparr>w_ticks := Suc (w_ticks w)\<rparr>)"
  using assms by (simp add: require_principal_def bindE_def tick_def ret_def)

lemma principal_sub: "require_principal J s cr w = (Inr p, w') \<Longrightarrow>
    (\<exists>sub. dict_get p ''sub'' JNull = JStr sub) \<and> is_string_list (dict_get p ''roles'' (JArr []))"
  by (auto simp: require_principal_def bindE_def tick_def ret_def raise_def is_string_def
      split: option.splits if_splits json.splits)

text \<open>A library that keeps the contract: a token is the number of the tuple it stands for.\<close>

definition sample_jwt :: jwt_library where
  "sample_jwt = \<lparr>jwt_encode = (\<lambda>c secret alg. nat_str (to_nat (cl_sub c, cl_roles c, cl_iss c, cl_aud c,
       micros (cl_iat c) div 1000000, micros (cl_nbf c) div 1000000, micros (cl_exp c) div 1000000, secret, alg))),
     jwt_decode = (\<lambda>token secret algs aud iss required now.
       case from_nat (digits_val token) of
         (sub :: string, roles :: string list, iss', aud', iat, nbf, until, secret', alg) \<Rightarrow>
           if secret' = secret \<and> alg \<in> set algs \<and> aud' = aud \<and> iss' = iss
              \<and> iat * 1000000 \<le> now \<and> nbf * 1000000 \<le> now \<and> now < until * 1000000
           then Some [(''sub'', JStr sub), (''roles'', JArr (map JStr roles)), (''iss'', JStr iss), (''aud'', JStr aud),
             (''iat'', JInt iat), (''nbf'', JInt nbf), (''exp'', JInt until)]
           else None)\<rparr>"

lemma sample_jwt_contract: "jwt_contract sample_jwt"
proof -
  have "x div 1000000 * 1000000 \<le> x" for x :: int by simp
  then have "x \<le> now \<Longrightarrow> x div 1000000 * 1000000 \<le> now" for x now :: int using order_trans by blast
  then show ?thesis
    by (auto simp: jwt_contract_def sample_jwt_def claims_json_def Let_def)
qed

text \<open>A token of the sample service for an administrator, used at the next reading of the clock.\<close>

lemma sample_admin:
  obtains token p where "create_access_token sample_jwt sample_settings ''alice'' [''admin''] sample_world
      = (Inr token, sample_world\<lparr>w_ticks := 1\<rparr>)"
    and "\<And>accepted. ''admin'' \<in> set accepted \<Longrightarrow>
      require_role sample_jwt sample_settings accepted (Some (''Bearer'', token)) (sample_world\<lparr>w_ticks := 1\<rparr>)
        = (Inr p, sample_world\<lparr>w_ticks := 2\<rparr>)"
    and "actor p = ''alice''"
proof -
  let ?w = "sample_world\<lparr>w_ticks := 1\<rparr>"
  let ?c = "\<lparr>cl_sub = ''alice'', cl_roles = sorted_set [''admin''], cl_iss = jwt_issuer sample_settings,
         cl_aud = jwt_audience sample_settings, cl_iat = Datetime 1700000000000000 True,
         cl_nbf = Datetime 1700000000000000 True,
         cl_exp = plus_seconds (Datetime 1700000000000000 True) (jwt_expiry_seconds sample_settings)\<rparr>"
  obtain token where t: "create_access_token sample_jwt sample_settings ''alice'' [''admin''] sample_world = (Inr token, ?w)"
    by (simp add: create_access_token_def now_utc_def tick_def bindE_def ret_def sample_world_def)
  have low: "py_lower ''Bearer'' = ''bearer''" by code_simp
  have "jwt_decode sample_jwt token (jwt_secret sample_settings) [jwt_algorithm sample_settings]
      (jwt_audience sample_settings) (jwt_issuer sample_settings) required_claims (w_clock ?w (w_ticks ?w))
    = Some (claims_json ?c)"
    using issued_token(1) [OF t sample_jwt_contract, of "w_clock ?w (w_ticks ?w)"]
    by (simp add: sample_world_def sample_settings_def)
  note principal = require_principal_decoded [OF low this]
  have "sorted_set [''admin''] = [''admin'']" by code_simp
  then have "require_role sample_jwt sample_settings accepted (Some (''Bearer'', token)) ?w
      = (Inr (claims_json ?c), sample_world\<lparr>w_ticks := 2\<rparr>)" if "''admin'' \<in> set accepted" for accepted
    using principal that by (simp add: require_role_def bindE_def ret_def list_ex_iff numeral_2_eq_2)
  moreover have "actor (claims_json ?c) = ''alice''" by (simp add: actor_def py_str_def)
  ultimately show thesis using t that by blast
qed

subsection \<open>Properties\<close>

text \<open>
  C25: A token issued for a subject with some roles is accepted until the whole seconds of its life
  are over: until then a guarded endpoint sees that subject and the sorted roles when one of
  the roles is an accepted one, and answers 403 when none is; afterwards it answers 401,
  whatever the roles.
\<close>

theorem issued_token_accepted:
  assumes "jwt_contract J" and "create_access_token J s subject roles w = (Inr token, w1)"
    and "py_lower scheme = ''bearer''" and "w_clock w (w_ticks w) \<le> w_clock v (w_ticks v)"
  shows "if (w_clock w (w_ticks w) div 1000000 + jwt_expiry_seconds s) * 1000000 \<le> w_clock v (w_ticks v)
    then fst (require_role J s accepted (Some (scheme, token)) v) = Inl (HTTPException 401 ''Invalid or expired token'')
    else if set roles \<inter> set accepted = {}
    then fst (require_role J s accepted (Some (scheme, token)) v) = Inl (HTTPException 403 ''Insufficient role'')
    else \<exists>p. fst (require_role J s accepted (Some (scheme, token)) v) = Inr p
      \<and> actor p = subject \<and> principal_roles p = sorted_set roles"
proof (cases "(w_clock w (w_ticks w) div 1000000 + jwt_expiry_seconds s) * 1000000 \<le> w_clock v (w_ticks v)")
  case True
  then show ?thesis
    using issued_token(2) [OF assms(2,1) True] assms(3)
    by (simp add: require_role_def require_principal_def bindE_def tick_def raise_def)
next
  case False
  then have "w_clock v (w_ticks v) < (w_clock w (w_ticks w) div 1000000 + jwt_expiry_seconds s) * 1000000" by simp
  note dec = issued_token(1) [OF assms(2,1,4) this]
  show ?thesis
    using False require_principal_decoded [OF assms(3) dec]
    by (auto simp: require_role_def bindE_def ret_def raise_def list_ex_iff actor_def py_str_def)
qed

lemma issued_token_accepted_witness:
  "\<exists>token w1 p. create_access_token sample_jwt sample_settings ''alice'' [''operator'', ''admin''] sample_world = (Inr token, w1)
     \<and> fst (require_role sample_jwt sample_settings [''admin''] (Some (''Bearer'', token)) w1) = Inr p \<and> actor p = ''alice''"
proof -
  obtain token w1 where t: "create_access_token sample_jwt sample_settings ''alice'' [''operator'', ''admin''] sample_world = (Inr token, w1)"
    and w1: "w1 = sample_world\<lparr>w_ticks := 1\<rparr>"
    by (simp add: create_access_token_def now_utc_def tick_def bindE_def ret_def sample_world_def)
  have "py_lower ''Bearer'' = ''bearer''" by code_simp
  then show ?thesis
    using issued_token_accepted [OF sample_jwt_contract t, of "''Bearer''" w1 "[''admin'']"] t
    by (simp add: w1 sample_world_def sample_settings_def) blast
qed

text \<open>
  C26: A guarded endpoint runs only behind a bearer token that the library decodes under the
  secret, algorithm, audience and issuer of the settings, with a text subject and at least one
  accepted role among text roles.
\<close>

theorem require_role_sound:
  assumes "require_role J s accepted credentials w = (Inr p, w')"
  shows "\<exists>scheme token r. credentials = Some (scheme, token) \<and> py_lower scheme = ''bearer''
    \<and> jwt_decode J token (jwt_secret s) [jwt_algorithm s] (jwt_audience s) (jwt_issuer s)
        required_claims (w_clock w (w_ticks w)) = Some p
    \<and> dict_get p ''sub'' JNull = JStr (actor p) \<and> r \<in> set (principal_roles p) \<and> r \<in> set accepted"
  using assms
  by (auto simp: require_role_def require_principal_def bindE_Inr tick_def ret_def raise_def list_ex_iff
      actor_def py_str_def is_string_def split: option.splits if_splits prod.splits json.splits)

lemma require_role_sound_witness:
  "\<exists>token p. dict_get p ''sub'' JNull = JStr (actor p)
     \<and> jwt_decode sample_jwt token (jwt_secret sample_settings) [''HS256''] ''marcel-arch-clients'' ''marcel-arch''
        required_claims 1700000000001000 = Some p"
proof -
  obtain token p where "require_role sample_jwt sample_settings [''admin''] (Some (''Bearer'', token)) (sample_world\<lparr>w_ticks := 1\<rparr>)
      = (Inr p, sample_world\<lparr>w_ticks := 2\<rparr>)"
    by (rule sample_admin) (metis list.set_intros(1))
  from require_role_sound [OF this] show ?thesis
    by (auto simp: sample_world_def sample_settings_def)
qed

end
