(* ===== verification/Governor.thy ===== *)
theory Governor
  imports Samples
begin

text \<open>
  \<open>TokenBucketGovernor\<close> of \<open>marcel/core/engine.py\<close>: budget reservations in Redis on top of
  the budgets table.
\<close>

subsection \<open>Decimals that may not be finite\<close>

text \<open>Ordering comparisons with a NaN raise \<open>InvalidOperation\<close>.\<close>

fun pydec_less :: "pydec \<Rightarrow> pydec \<Rightarrow> bool result" where
  "pydec_less (NotANumber _) _ = Inl InvalidOperation"
| "pydec_less _ (NotANumber _) = Inl InvalidOperation"
| "pydec_less (Finite x) (Finite y) = Inr (x < y)"
| "pydec_less (Finite _) (Infinite neg) = Inr (\<not> neg)"
| "pydec_less (Infinite neg) (Finite _) = Inr neg"
| "pydec_less (Infinite a) (Infinite b) = Inr (a \<and> \<not> b)"

text \<open>\<open>Decimal(text)\<close>.\<close>

definition decimal :: "string \<Rightarrow> pydec result" where
  "decimal s = (case dec_of_str s of None \<Rightarrow> Inl InvalidOperation | Some d \<Rightarrow> Inr d)"

subsection \<open>The operations\<close>

definition reservation_ttl_seconds :: int where
  "reservation_ttl_seconds = 86400"

definition budget_key :: "string \<Rightarrow> string \<Rightarrow> string" where
  "budget_key agent_id currency = ''marcel:budget:'' @ agent_id @ '':'' @ currency"

definition is_budget :: "string \<Rightarrow> string \<Rightarrow> budget \<Rightarrow> bool" where
  "is_budget agent_id currency b \<longleftrightarrow> bu_agent_id b = agent_id \<and> bu_currency b = currency"

definition get_budget :: "string \<Rightarrow> string \<Rightarrow> budget option op" where
  "get_budget agent_id currency = execute (\<lambda>db. find_row (is_budget agent_id currency) (budgets db))"

definition remaining :: "string \<Rightarrow> string \<Rightarrow> pydec option op" where
  "remaining agent_id currency =
     bindE (get_budget agent_id currency) (\<lambda>found.
     case found of None \<Rightarrow> ret None
     | Some b \<Rightarrow>
         if \<not> bu_active b then ret None
         else let key = budget_key agent_id currency
              in bindE (redis_get key) (\<lambda>cached.
                 bindE (case cached of Some s \<Rightarrow> ret (Some s)
                        | None \<Rightarrow>
                            let left = bu_limit_amount b - bu_consumed_amount b;
                                left = (if left < 0 then 0 else left)
                            in bindE (redis_set_nx key (dec_str left) reservation_ttl_seconds)
                                 (\<lambda>_. redis_get key))
                   (\<lambda>cached.
                      bindE (lift_result (decimal (case cached of None \<Rightarrow> ''None'' | Some s \<Rightarrow> s)))
                        (\<lambda>d. ret (Some d)))))"

text \<open>
  The script always replies with two numbers, so the answer has the shape that \<open>reserve\<close> checks before
  it reads it, and the reading of an integer as a decimal cannot fail.
\<close>

definition reserve :: "string \<Rightarrow> string \<Rightarrow> dec \<Rightarrow> (bool \<times> dec option) op" where
  "reserve agent_id currency amount =
     (if amount \<le> 0 then raise (ValueError ''Reservation amount must be positive'')
      else bindE (get_budget agent_id currency) (\<lambda>found.
        case found of None \<Rightarrow> ret (False, None)
        | Some b \<Rightarrow>
            if \<not> bu_active b then ret (False, None)
            else let database_remaining = bu_limit_amount b - bu_consumed_amount b
                 in if database_remaining < amount then ret (False, Some (dec_max database_remaining 0))
                    else bindE (redis_eval_reserve (budget_key agent_id currency)
                                  (dec_str (dec_max database_remaining 0)) (dec_str amount)
                                  reservation_ttl_seconds)
                           (\<lambda>(status, left). ret (status = 1, Some (Dec left 0)))))"

text \<open>The update \<open>commit\<close> makes to the row: consumed amount, version and time stamp.\<close>

definition consume :: "budget \<Rightarrow> dec \<Rightarrow> datetime \<Rightarrow> budget \<Rightarrow> budget" where
  "consume b amount now r = r\<lparr>bu_consumed_amount := bu_consumed_amount b + amount,
     bu_version := bu_version b + 1, bu_updated_at := now\<rparr>"

definition commit :: "string \<Rightarrow> string \<Rightarrow> dec \<Rightarrow> budget op" where
  "commit agent_id currency amount =
     (if amount \<le> 0 then raise (ValueError ''Commit amount must be positive'')
      else bindE (get_budget agent_id currency) (\<lambda>found.
        case found of None \<Rightarrow> raise (GovernanceError ''No active budget exists for this agent and currency'')
        | Some b \<Rightarrow>
            if \<not> bu_active b then raise (GovernanceError ''No active budget exists for this agent and currency'')
            else if bu_limit_amount b < bu_consumed_amount b + amount
            then raise (GovernanceError ''Budget cap exceeded during commit'')
            else bindE now_utc (\<lambda>now.
              bindE (update_db (\<lambda>db. db\<lparr>budgets :=
                       update_rows (\<lambda>r. bu_id r = bu_id b) (consume b amount now) (budgets db)\<rparr>))
                (\<lambda>_. ret (consume b amount now b)))))"

definition release :: "string \<Rightarrow> string \<Rightarrow> dec \<Rightarrow> unit op" where
  "release agent_id currency amount =
     (if amount \<le> 0 then ret ()
      else bindE (get_budget agent_id currency) (\<lambda>found.
        case found of None \<Rightarrow> ret ()
        | Some b \<Rightarrow> redis_set (budget_key agent_id currency)
            (dec_str (dec_max (bu_limit_amount b - bu_consumed_amount b) 0)) reservation_ttl_seconds))"

definition reset :: "string \<Rightarrow> string \<Rightarrow> dec \<Rightarrow> unit op" where
  "reset agent_id currency left =
     (if left < 0 then raise (ValueError ''remaining cannot be negative'')
      else redis_set (budget_key agent_id currency) (dec_str left) reservation_ttl_seconds)"

text \<open>Reservations, their release and the remaining amount do not touch the session.\<close>

lemma quiet_get_budget: "obeys same_session (get_budget a c)"
  unfolding get_budget_def by (rule quiet_execute)

lemma quiet_remaining: "obeys same_session (remaining a c)"
  unfolding remaining_def Let_def
  by (intro quiet_store quiet_get_budget)

lemma quiet_reserve: "obeys same_session (reserve a c x)"
  unfolding reserve_def Let_def case_prod_beta
  by (intro quiet_store quiet_get_budget)

lemma quiet_release: "obeys same_session (release a c x)"
  unfolding release_def by (intro quiet_store quiet_get_budget)

lemma quiet_reset: "obeys same_session (reset a c x)"
  unfolding reset_def by (intro quiet_store)

lemma base_commit: "obeys same_base (commit a c x)"
  unfolding commit_def by (intro base_store base_quiet [OF quiet_get_budget])

lemmas base_governor = base_store base_quiet [OF quiet_get_budget] base_quiet [OF quiet_remaining]
  base_quiet [OF quiet_reserve] base_quiet [OF quiet_release] base_quiet [OF quiet_reset] base_commit

lemmas quiet_governor = quiet_store quiet_get_budget quiet_remaining quiet_reserve quiet_release quiet_reset

subsection \<open>The budgets table\<close>

text \<open>
  A row within its cap: amounts a column can hold, the consumed amount between zero and the
  limit.  The table: distinct keys, every row within its cap.
\<close>

definition budget_ok :: "budget \<Rightarrow> bool" where
  "budget_ok b \<longleftrightarrow> money (bu_limit_amount b) \<and> money (bu_consumed_amount b)
     \<and> 0 \<le> dval (bu_consumed_amount b) \<and> dval (bu_consumed_amount b) \<le> dval (bu_limit_amount b)
     \<and> dval (bu_limit_amount b) < 10 ^ 14"

definition budgets_ok :: "database \<Rightarrow> bool" where
  "budgets_ok db \<longleftrightarrow> distinct (map bu_id (budgets db))
     \<and> distinct (map (\<lambda>b. (bu_agent_id b, bu_currency b)) (budgets db))
     \<and> (\<forall>b \<in> set (budgets db). budget_ok b)"

lemma is_budget_key: "is_budget a c b \<longleftrightarrow> (bu_agent_id b, bu_currency b) = (a, c)"
  by (auto simp: is_budget_def)

lemma get_budget_run:
  "get_budget a c w = (if w_session_ok w then find_row (is_budget a c) (budgets (w_db w))
     else Inl PendingRollbackError, w)"
  by (simp add: get_budget_def execute_def)

lemma consume_key [simp]:
  "bu_id (consume b x t r) = bu_id r" "bu_agent_id (consume b x t r) = bu_agent_id r"
  "bu_currency (consume b x t r) = bu_currency r" "bu_limit_amount (consume b x t r) = bu_limit_amount r"
  "bu_active (consume b x t r) = bu_active r"
  "bu_consumed_amount (consume b x t r) = bu_consumed_amount b + x"
  "bu_version (consume b x t r) = bu_version b + 1"
  by (simp_all add: consume_def)

lemma distinct_key_eq:
  "distinct (map f xs) \<Longrightarrow> x \<in> set xs \<Longrightarrow> y \<in> set xs \<Longrightarrow> f x = f y \<Longrightarrow> x = y"
  by (auto simp: distinct_map inj_on_def)

text \<open>The cap test of \<open>commit\<close> keeps the row within its cap.\<close>

lemma consume_ok:
  assumes "budget_ok b" and "money x" and "0 < dval x" and "\<not> bu_limit_amount b < bu_consumed_amount b + x"
  shows "budget_ok (consume b x t b)"
    and "dval (bu_consumed_amount (consume b x t b)) = dval (bu_consumed_amount b) + dval x"
proof -
  have sum: "dval (bu_consumed_amount b + x) = dval (bu_consumed_amount b) + dval x"
    using assms by (intro dval_add) (simp_all add: budget_ok_def)
  then have le: "dval (bu_consumed_amount b) + dval x \<le> dval (bu_limit_amount b)"
    using assms(4) by (simp add: dec_less_iff not_less)
  have "money (bu_consumed_amount b + x)"
    using assms le by (intro money_add) (auto simp: budget_ok_def)
  with sum le assms show "budget_ok (consume b x t b)" by (simp add: budget_ok_def)
  show "dval (bu_consumed_amount (consume b x t b)) = dval (bu_consumed_amount b) + dval x"
    using sum by simp
qed

text \<open>What a successful \<open>commit\<close> did.\<close>

lemma commit_Inr:
  assumes "commit a c x w = (Inr b', w')"
  obtains b t where "find_row (is_budget a c) (budgets (w_db w)) = Inr (Some b)" and "bu_active b"
    and "0 < x" and "\<not> bu_limit_amount b < bu_consumed_amount b + x" and "b' = consume b x t b"
    and "w_db w' = (w_db w)\<lparr>budgets :=
           update_rows (\<lambda>r. bu_id r = bu_id b) (consume b x t) (budgets (w_db w))\<rparr>"
    and "w_base w' = w_base w" and "w_kv w' = w_kv w" and "w_session_ok w'"
  using assms that
  by (auto simp: commit_def get_budget_run eff_simps now_utc_def tick_def update_db_def
      dec_less_iff dec_le_iff not_le split: if_splits sum.splits option.splits)

lemma commit_Inl:
  assumes "commit a c x w = (Inl e, w')"
  shows "w_db w' = w_db w \<and> w_base w' = w_base w \<and> w_kv w' = w_kv w"
  using assms
  by (auto simp: commit_def get_budget_run eff_simps now_utc_def tick_def update_db_def
      split: if_splits sum.splits option.splits)

lemma update_rows_one:
  assumes "distinct (map bu_id rows)" and "b \<in> set rows"
  shows "set (update_rows (\<lambda>r. bu_id r = bu_id b) f rows) = insert (f b) (set rows - {b})"
proof -
  have "bu_id r = bu_id b \<longleftrightarrow> r = b" if "r \<in> set rows" for r
    using that assms distinct_key_eq by metis
  then show ?thesis using assms(2) by (auto simp: update_rows_def image_iff)
qed

text \<open>An update of one row that keeps its keys and its cap keeps the table.\<close>

lemma budgets_ok_update:
  assumes "budgets_ok d" and "find_row p (budgets d) = Inr (Some b)" and "budget_ok (f b)"
    and "\<And>r. bu_id (f r) = bu_id r \<and> bu_agent_id (f r) = bu_agent_id r \<and> bu_currency (f r) = bu_currency r"
  shows "budgets_ok (d\<lparr>budgets := update_rows (\<lambda>r. bu_id r = bu_id b) f (budgets d)\<rparr>)"
proof -
  have "b \<in> set (budgets d)" using find_row_Some [OF assms(2)] by blast
  then have "\<forall>r \<in> set (update_rows (\<lambda>r. bu_id r = bu_id b) f (budgets d)). budget_ok r"
    using assms(1,3) by (auto simp: budgets_ok_def update_rows_one)
  then show ?thesis using assms(1,4) by (simp add: budgets_ok_def map_update_rows)
qed

lemma consume_budgets_ok:
  assumes "budgets_ok d" and "find_row p (budgets d) = Inr (Some b)" and "money x" and "0 < x"
    and "\<not> bu_limit_amount b < bu_consumed_amount b + x"
  shows "budgets_ok (d\<lparr>budgets := update_rows (\<lambda>r. bu_id r = bu_id b) (consume b x t) (budgets d)\<rparr>)"
proof (rule budgets_ok_update [OF assms(1,2)])
  have "b \<in> set (budgets d)" using find_row_Some [OF assms(2)] by blast
  then show "budget_ok (consume b x t b)"
    using assms by (intro consume_ok) (auto simp: budgets_ok_def dec_less_iff)
qed simp

context database_relation begin

lemma obeys_commit:
  assumes "\<And>d b t. \<lbrakk>find_row (is_budget a c) (budgets d) = Inr (Some b); bu_active b; 0 < x;
      \<not> bu_limit_amount b < bu_consumed_amount b + x\<rbrakk>
    \<Longrightarrow> Q d (d\<lparr>budgets := update_rows (\<lambda>r. bu_id r = bu_id b) (consume b x t) (budgets d)\<rparr>)"
  shows "obeys inner (commit a c x)"
  unfolding obeys_def inner_def
proof
  fix w
  obtain r w' where run: "commit a c x w = (r, w')" by fastforce
  show "Q (w_db w) (w_db (snd (commit a c x w))) \<and> Q (w_base w) (w_base (snd (commit a c x w)))"
  proof (cases r)
    case (Inl e)
    then show ?thesis using commit_Inl run Q_refl by auto
  next
    case (Inr b')
    from run [unfolded Inr] show ?thesis
      by (rule commit_Inr) (use assms Q_refl run in auto)
  qed
qed

end

subsection \<open>Reservations against one budget\<close>

text \<open>
  A run of reservations against a budget whose row does not change, inside one time-to-live
  window \<open>[T, T + 86400 s)\<close>.  \<open>balance w T a c left v\<close>: \<open>v\<close> is what can still be
  reserved, namely the stored number, or what the row leaves (\<open>left\<close>) when there is no key.
\<close>

definition window :: int where
  "window = reservation_ttl_seconds * 1000000"

definition steady :: "int \<Rightarrow> world \<Rightarrow> bool" where
  "steady T w \<longleftrightarrow> (\<forall>n \<ge> w_ticks w. T \<le> w_clock w n \<and> w_clock w n < T + window)"

definition balance :: "world \<Rightarrow> int \<Rightarrow> string \<Rightarrow> string \<Rightarrow> int \<Rightarrow> int \<Rightarrow> bool" where
  "balance w T a c left v \<longleftrightarrow>
     (case w_kv w (budget_key a c) of None \<Rightarrow> v = left
      | Some (s, expiry) \<Rightarrow> T + window \<le> expiry \<and> denotes s (of_int v))"

definition printable :: "dec \<Rightarrow> bool" where
  "printable d \<longleftrightarrow> dec_range (nat \<bar>coef d\<bar>) (expo d)"

definition whole_amount :: "dec \<Rightarrow> int \<Rightarrow> bool" where
  "whole_amount d n \<longleftrightarrow> printable d \<and> dval d = of_int n \<and> n < 10 ^ 14"

text \<open>The row of the budget, with a whole amount left.\<close>

definition open_budget :: "world \<Rightarrow> string \<Rightarrow> string \<Rightarrow> int \<Rightarrow> bool" where
  "open_budget w a c left \<longleftrightarrow> w_session_ok w \<and> 0 \<le> left \<and>
     (\<exists>b. find_row (is_budget a c) (budgets (w_db w)) = Inr (Some b) \<and> bu_active b
        \<and> whole_amount (bu_limit_amount b - bu_consumed_amount b) left)"

lemma whole_denotes: "whole_amount d n \<Longrightarrow> denotes (dec_str d) (of_int n)"
  using denotes_dec_str [of d] by (simp add: whole_amount_def printable_def)

text \<open>A reservation against an active row, in terms of the script.\<close>

lemma reserve_eval:
  assumes "w_session_ok w" and "find_row (is_budget a c) (budgets (w_db w)) = Inr (Some b)" and "bu_active b"
    and "0 < dval x" and "0 \<le> dval (bu_limit_amount b - bu_consumed_amount b)"
  defines "left \<equiv> bu_limit_amount b - bu_consumed_amount b" and "t \<equiv> w_clock w (w_ticks w)"
    and "w1 \<equiv> w\<lparr>w_ticks := Suc (w_ticks w)\<rparr>" and "key \<equiv> budget_key a c"
  shows "reserve a c x w = (if dval left < dval x then (Inr (False, Some left), w)
    else case reserve_script (live_value w1 t key) (dec_str left) (dec_str x) of
        None \<Rightarrow> (Inl RedisResponseError, w1)
      | Some (None, status, l) \<Rightarrow> (Inr (status = 1, Some (Dec l 0)), w1)
      | Some (Some s, status, l) \<Rightarrow>
          (Inr (status = 1, Some (Dec l 0)), put_value key s (t + window) w1))"
proof -
  have pos: "\<not> x \<le> 0" using assms(4) by (simp add: dec_le_iff)
  have short: "left < x \<longleftrightarrow> dval left < dval x" by (simp add: dec_less_iff)
  have mx: "dec_max left 0 = left" using assms(5) by (simp add: dec_max_def dec_less_iff left_def)
  have "reserve a c x w = (if left < x then (Inr (False, Some left), w)
      else bindE (redis_eval_reserve key (dec_str left) (dec_str x) reservation_ttl_seconds)
        (\<lambda>(status, l). ret (status = 1, Some (Dec l 0))) w)"
    using assms(1-3) pos mx
    by (simp add: reserve_def get_budget_def execute_bind Let_def left_def [symmetric] key_def ret_def)
  then show ?thesis unfolding short
    by (simp add: redis_eval_reserve_def bindE_def tick_def ret_def t_def w1_def window_def
        split: option.splits prod.splits)
qed

lemma reserve_whole:
  assumes ob: "open_budget w a c left" and st: "steady T w" and bal: "balance w T a c left v"
    and v: "0 \<le> v" "v < 10 ^ 14" and amt: "whole_amount x n" and n: "0 < n"
  defines "granted \<equiv> n \<le> left \<and> n \<le> v"
  obtains r w' where "reserve a c x w = (Inr (granted, r), w')" and "open_budget w' a c left"
    and "steady T w'" and "balance w' T a c left (if granted then v - n else v)"
    and "w_db w' = w_db w"
proof -
  obtain b where b: "find_row (is_budget a c) (budgets (w_db w)) = Inr (Some b)" "bu_active b"
    and left: "whole_amount (bu_limit_amount b - bu_consumed_amount b) left"
    and ok: "w_session_ok w" and left0: "0 \<le> left"
    using ob unfolding open_budget_def by blast
  let ?left = "bu_limit_amount b - bu_consumed_amount b" and ?key = "budget_key a c"
  define t where "t = w_clock w (w_ticks w)"
  define w1 where "w1 = w\<lparr>w_ticks := Suc (w_ticks w)\<rparr>"
  have dl: "dval ?left = of_int left" and dx: "dval x = of_int n"
    using left amt by (simp_all add: whole_amount_def)
  note run = reserve_eval [OF ok b, of x, unfolded dl dx, folded t_def w1_def]
  show thesis
  proof (cases "left < n")
    case True
    then have "reserve a c x w = (Inr (granted, Some ?left), w)"
      using run n left0 by (simp add: granted_def)
    then show thesis using that ob st bal True by (simp add: granted_def)
  next
    case False
    have t: "T \<le> t" "t < T + window" using st by (simp_all add: steady_def t_def)
    have live: "live_value w1 t ?key = map_option fst (w_kv w ?key)"
      using bal t by (auto simp: live_value_def balance_def w1_def split: option.splits)
    have cur: "denotes (case live_value w1 t ?key of None \<Rightarrow> dec_str ?left | Some s \<Rightarrow> s) (of_int v)"
      using bal whole_denotes [OF left] unfolding live
      by (cases "w_kv w ?key") (auto simp: balance_def split: prod.splits)
    note script = reserve_script_whole [OF cur whole_denotes [OF amt]]
    have st1: "steady T w1" using st by (simp add: steady_def w1_def)
    have ob1: "open_budget w1 a c left" using ob by (simp add: open_budget_def w1_def)
    show thesis
    proof (cases "v < n")
      case True
      then have "reserve_script (live_value w1 t ?key) (dec_str ?left) (dec_str x) = Some (None, - 1, v)"
        using script(1) v n amt by (simp add: whole_amount_def)
      then have "reserve a c x w = (Inr (granted, Some (Dec v 0)), w1)"
        using run n left0 True False by (simp add: granted_def)
      moreover have "balance w1 T a c left v" using bal by (simp add: balance_def w1_def)
      ultimately show thesis using that st1 ob1 True by (simp add: granted_def w1_def)
    next
      case False
      then obtain s where sc: "reserve_script (live_value w1 t ?key) (dec_str ?left) (dec_str x)
          = Some (Some s, 1, v - n)" and s: "denotes s (of_int (v - n))"
        using script(2) v n amt by (auto simp: whole_amount_def)
      define w2 where "w2 = put_value ?key s (t + window) w1"
      have g: granted using False \<open>\<not> left < n\<close> by (simp add: granted_def)
      then have "reserve a c x w = (Inr (granted, Some (Dec (v - n) 0)), w2)"
        using run n left0 sc by (simp add: granted_def w2_def)
      moreover have "balance w2 T a c left (v - n)"
        using s t by (simp add: balance_def w2_def put_value_def)
      moreover have "steady T w2" and "open_budget w2 a c left" and "w_db w2 = w_db w"
        using st1 ob1 by (simp_all add: steady_def open_budget_def w2_def put_value_def w1_def)
      ultimately show thesis using that g by simp
    qed
  qed
qed

text \<open>The abstract ledger: an amount is granted when it fits, and then leaves the balance.\<close>

fun ledger :: "int \<Rightarrow> int \<Rightarrow> int list \<Rightarrow> bool list" where
  "ledger left v [] = []"
| "ledger left v (n # ns) =
     (if n \<le> left \<and> n \<le> v then True # ledger left (v - n) ns else False # ledger left v ns)"

definition granted_sum :: "bool list \<Rightarrow> int list \<Rightarrow> int" where
  "granted_sum oks ns = sum_list (map snd (filter fst (zip oks ns)))"

lemma ledger_granted: "0 \<le> v \<Longrightarrow> granted_sum (ledger left v ns) ns \<le> v"
proof (induction ns arbitrary: v)
  case (Cons n ns)
  show ?case
    using Cons.IH [of v] Cons.IH [of "v - n"] Cons.prems by (auto simp: granted_sum_def)
qed (simp add: granted_sum_def)

text \<open>Several agents reserve one after the other, in the order the script runs in.\<close>

fun reserve_all :: "string \<Rightarrow> string \<Rightarrow> dec list \<Rightarrow> bool list op" where
  "reserve_all a c [] = ret []"
| "reserve_all a c (x # xs) =
     bindE (reserve a c x) (\<lambda>r. bindE (reserve_all a c xs) (\<lambda>oks. ret (fst r # oks)))"

lemma reserve_all_ledger:
  assumes "list_all2 (\<lambda>x n. whole_amount x n \<and> 0 < n) xs ns"
    and "open_budget w a c left" and "steady T w" and "balance w T a c left v"
    and "0 \<le> v" and "v < 10 ^ 14"
  shows "\<exists>w'. reserve_all a c xs w = (Inr (ledger left v ns), w') \<and> w_db w' = w_db w"
  using assms
proof (induction xs ns arbitrary: w v rule: list_all2_induct)
  case Nil
  then show ?case by (simp add: ret_def)
next
  case (Cons x xs n ns)
  let ?g = "n \<le> left \<and> n \<le> v"
  from Cons.hyps(1) have x: "whole_amount x n" "0 < n" by simp_all
  obtain r w1 where run: "reserve a c x w = (Inr (?g, r), w1)" and o1: "open_budget w1 a c left"
    and s1: "steady T w1" and b1: "balance w1 T a c left (if ?g then v - n else v)"
    and d1: "w_db w1 = w_db w"
    by (rule reserve_whole [OF Cons.prems x])
  have "0 \<le> (if ?g then v - n else v)" and "(if ?g then v - n else v) < 10 ^ 14"
    using Cons.prems(4,5) x(2) by auto
  from Cons.IH [OF o1 s1 b1 this] obtain w' where
    rest: "reserve_all a c xs w1 = (Inr (ledger left (if ?g then v - n else v) ns), w')"
    and d': "w_db w' = w_db w1" by blast
  have "reserve_all a c (x # xs) w = (Inr (?g # ledger left (if ?g then v - n else v) ns), w')"
    by (simp add: bindE_def run rest ret_def)
  then show ?case using d' d1 by (auto split: if_splits)
qed

subsection \<open>Properties\<close>

lemma reset_run:
  assumes "reset a c d w = (Inr (), w1)"
  shows "w1 = put_value (budget_key a c) (dec_str d)
      (w_clock w (w_ticks w) + window) (w\<lparr>w_ticks := Suc (w_ticks w)\<rparr>)"
  using assms
  by (auto simp: reset_def redis_set_def bindE_def tick_def modify_s_def raise_def window_def split: if_splits)

lemma remaining_cached:
  assumes "w_session_ok w" and "find_row (is_budget a c) (budgets (w_db w)) = Inr (Some b)" and "bu_active b"
    and "live_value (w\<lparr>w_ticks := Suc (w_ticks w)\<rparr>) (w_clock w (w_ticks w)) (budget_key a c) = Some s"
  shows "fst (remaining a c w) = (case decimal s of Inl e \<Rightarrow> Inl e | Inr d \<Rightarrow> Inr (Some d))"
proof -
  have "remaining a c w = bindE (lift_result (decimal s)) (\<lambda>d. ret (Some d)) (w\<lparr>w_ticks := Suc (w_ticks w)\<rparr>)"
    using assms
    by (simp add: remaining_def get_budget_def execute_bind Let_def)
      (simp add: redis_get_def bindE_def tick_def get_s_def ret_def)
  then show ?thesis by (simp add: lift_bind ret_def split: sum.split)
qed

text \<open>
  C28: What is written is what is read: within the time to live, the remaining amount after a reset
  is the very decimal the reset stored, as long as the agent has an active budget.
\<close>

theorem reset_then_remaining:
  assumes "reset a c d w = (Inr (), w1)" and "w_session_ok w"
    and "find_row (is_budget a c) (budgets (w_db w)) = Inr (Some b)" and "bu_active b" and "printable d"
    and "w_clock w (Suc (w_ticks w)) < w_clock w (w_ticks w) + window"
  shows "fst (remaining a c w1) = Inr (Some (Finite d))"
proof -
  have w1: "w1 = put_value (budget_key a c) (dec_str d)
      (w_clock w (w_ticks w) + window) (w\<lparr>w_ticks := Suc (w_ticks w)\<rparr>)"
    by (rule reset_run [OF assms(1)])
  have "decimal (dec_str d) = Inr (Finite d)"
    using assms(5) dec_of_str_dec_str by (simp add: decimal_def printable_def)
  moreover have "live_value (w1\<lparr>w_ticks := Suc (w_ticks w1)\<rparr>) (w_clock w1 (w_ticks w1)) (budget_key a c)
      = Some (dec_str d)"
    using assms(6) by (simp add: w1 live_value_def put_value_def)
  ultimately show ?thesis
    using remaining_cached [of w1 a c b "dec_str d"] assms(2-4) by (simp add: w1 put_value_def)
qed

lemma reset_then_remaining_witness:
  "\<exists>w1. reset ''agent-1'' ''USD'' (Dec 755 (- 1)) sample_world = (Inr (), w1)
     \<and> fst (remaining ''agent-1'' ''USD'' w1) = Inr (Some (Finite (Dec 755 (- 1))))"
proof -
  have "\<not> Dec 755 (- 1) < 0" by code_simp
  then obtain w1 where run: "reset ''agent-1'' ''USD'' (Dec 755 (- 1)) sample_world = (Inr (), w1)"
    by (simp add: reset_def redis_set_def bindE_def tick_def modify_s_def)
  have "printable (Dec 755 (- 1))" by (simp add: printable_def dec_range_small)
  moreover have "find_row (is_budget ''agent-1'' ''USD'') (budgets (w_db sample_world)) = Inr (Some sample_budget)"
    by code_simp
  ultimately have "fst (remaining ''agent-1'' ''USD'' w1) = Inr (Some (Finite (Dec 755 (- 1))))"
    by (intro reset_then_remaining [where b = sample_budget, OF run])
      (simp_all add: sample_world_def sample_budget_def window_def reservation_ttl_seconds_def)
  with run show ?thesis by blast
qed


definition still_world :: world where
  "still_world = sample_world\<lparr>w_clock := \<lambda>_. 1700000000000000\<rparr>"

lemma reserve_granted:
  assumes "open_budget w a c left" and "steady T w" and "balance w T a c left v" and "0 \<le> v" and "v < 10 ^ 14"
    and "whole_amount x n" and "0 < n" and "n \<le> left" and "n \<le> v"
  shows "\<exists>r w'. reserve a c x w = (Inr (True, r), w') \<and> open_budget w' a c left \<and> steady T w'
    \<and> balance w' T a c left (v - n)"
proof -
  obtain r w' where "reserve a c x w = (Inr (n \<le> left \<and> n \<le> v, r), w')" and "open_budget w' a c left"
    and "steady T w'" and "balance w' T a c left (if n \<le> left \<and> n \<le> v then v - n else v)"
    by (rule reserve_whole [OF assms(1-7)])
  then show ?thesis using assms(8,9) by auto
qed

lemma whole_int: "0 \<le> n \<Longrightarrow> n < 1000 \<Longrightarrow> whole_amount (Dec n 0) n"
  by (simp add: whole_amount_def printable_def dec_range_small dval_def pair_of_def sval_def)

lemma still_budget:
  "open_budget still_world ''agent-1'' ''USD'' 100" "steady 1700000000000000 still_world"
  "balance still_world 1700000000000000 ''agent-1'' ''USD'' 100 100"
proof -
  have row: "find_row (is_budget ''agent-1'' ''USD'') (budgets (w_db still_world)) = Inr (Some sample_budget)"
    by code_simp
  have left: "bu_limit_amount sample_budget - bu_consumed_amount sample_budget = Dec 100 0" by code_simp
  show "open_budget still_world ''agent-1'' ''USD'' 100"
    using row left whole_int [of 100]
    by (auto simp: open_budget_def sample_budget_def still_world_def sample_world_def)
  show "steady 1700000000000000 still_world"
    by (simp add: steady_def still_world_def sample_world_def window_def reservation_ttl_seconds_def)
  show "balance still_world 1700000000000000 ''agent-1'' ''USD'' 100 100"
    by (simp add: balance_def still_world_def sample_world_def)
qed


lemma release_balance:
  assumes ob: "open_budget w a c left" and st: "steady T w" and "\<not> x \<le> 0"
  obtains w' where "release a c x w = (Inr (), w')" and "open_budget w' a c left" and "steady T w'"
    and "balance w' T a c left left"
proof -
  obtain b where b: "find_row (is_budget a c) (budgets (w_db w)) = Inr (Some b)" "bu_active b"
    and left: "whole_amount (bu_limit_amount b - bu_consumed_amount b) left"
    and ok: "w_session_ok w" and left0: "0 \<le> left"
    using ob unfolding open_budget_def by blast
  let ?left = "bu_limit_amount b - bu_consumed_amount b"
  have "dval ?left = of_int left" using left by (simp add: whole_amount_def)
  then have mx: "dec_max ?left 0 = ?left" using left0 by (simp add: dec_max_def dec_less_iff)
  define t where "t = w_clock w (w_ticks w)"
  define w' where "w' = put_value (budget_key a c) (dec_str ?left) (t + window) (w\<lparr>w_ticks := Suc (w_ticks w)\<rparr>)"
  have t: "T \<le> t" using st by (simp add: steady_def t_def)
  have "release a c x w = (Inr (), w')"
    using assms(3) ok b mx
    by (simp add: release_def get_budget_def execute_bind)
      (simp add: redis_set_def bindE_def tick_def modify_s_def w'_def t_def window_def)
  moreover have "open_budget w' a c left" using ob by (simp add: open_budget_def w'_def put_value_def)
  moreover have "steady T w'" using st by (simp add: steady_def w'_def put_value_def)
  moreover have "balance w' T a c left left"
    using whole_denotes [OF left] t by (simp add: balance_def w'_def put_value_def)
  ultimately show thesis by (rule that)
qed

text \<open>
  C37: A release forgets the reservations of others: whatever was reserved before, the balance after
  it is again everything the row leaves, not the balance plus the released amount.
\<close>

theorem release_forgets_reservations:
  assumes "open_budget w a c left" and "steady T w" and "\<not> x \<le> 0"
  shows "\<exists>w'. release a c x w = (Inr (), w') \<and> open_budget w' a c left \<and> steady T w'
    \<and> balance w' T a c left left"
  by (rule release_balance [OF assms]) blast

text \<open>Out of 100: 60 and 40 are reserved, the 40 released, and 60 are granted again: 120 in flight.\<close>

lemma release_forgets_reservations_witness:
  "\<exists>w1 w2 w3 w4 r1 r2 r4. reserve ''agent-1'' ''USD'' (Dec 60 0) still_world = (Inr (True, r1), w1)
     \<and> reserve ''agent-1'' ''USD'' (Dec 40 0) w1 = (Inr (True, r2), w2)
     \<and> release ''agent-1'' ''USD'' (Dec 40 0) w2 = (Inr (), w3)
     \<and> reserve ''agent-1'' ''USD'' (Dec 60 0) w3 = (Inr (True, r4), w4)"
proof -
  let ?T = 1700000000000000 and ?a = "''agent-1''" and ?c = "''USD''"
  obtain r1 w1 where 1: "reserve ?a ?c (Dec 60 0) still_world = (Inr (True, r1), w1)"
    and b1: "open_budget w1 ?a ?c 100" "steady ?T w1" "balance w1 ?T ?a ?c 100 40"
    using reserve_granted [OF still_budget _ _ whole_int [of 60]] by auto
  obtain r2 w2 where 2: "reserve ?a ?c (Dec 40 0) w1 = (Inr (True, r2), w2)"
    and b2: "open_budget w2 ?a ?c 100" "steady ?T w2"
    using reserve_granted [OF b1 _ _ whole_int [of 40]] by auto
  have "\<not> Dec 40 0 \<le> 0" by code_simp
  then obtain w3 where 3: "release ?a ?c (Dec 40 0) w2 = (Inr (), w3)"
    and b3: "open_budget w3 ?a ?c 100" "steady ?T w3" "balance w3 ?T ?a ?c 100 100"
    using release_forgets_reservations [OF b2] by blast
  obtain r4 w4 where "reserve ?a ?c (Dec 60 0) w3 = (Inr (True, r4), w4)"
    using reserve_granted [OF b3 _ _ whole_int [of 60]] by auto
  with 1 2 3 show ?thesis by blast
qed

end
