(* ===== verification/Policy_Engine.thy ===== *)
theory Policy_Engine
  imports Governor "HOL-Library.Product_Lexorder"
begin

text \<open>
  \<open>DeterministicPolicyEngine\<close> of \<open>marcel/core/engine.py\<close>: evaluation of the stored policy
  definitions, which are JSON values of any shape, against an intent.
\<close>

subsection \<open>Conditions\<close>

definition is_dict :: "json \<Rightarrow> bool" where
  "is_dict v = (case v of JObj _ \<Rightarrow> True | _ \<Rightarrow> False)"

definition match_string_list :: "json \<Rightarrow> string \<Rightarrow> bool" where
  "match_string_list v actual =
     (case v of JArr xs \<Rightarrow> list_all (\<lambda>x. case x of JStr _ \<Rightarrow> True | _ \<Rightarrow> False) xs
                  \<and> (JStr actual \<in> set xs \<or> JStr ''*'' \<in> set xs)
      | _ \<Rightarrow> False)"

definition decimal_condition :: "json \<Rightarrow> pydec result" where
  "decimal_condition v =
     (case dec_of_str (py_str v) of
        None \<Rightarrow> Inl (GovernanceError ''Invalid numeric policy condition'')
      | Some d \<Rightarrow> bindR (pydec_less d (Finite 0)) (\<lambda>negative.
          if negative then Inl (GovernanceError ''Numeric policy condition cannot be negative'')
          else Inr d))"

definition payload_equals :: "json \<Rightarrow> (string \<times> json) list \<Rightarrow> bool" where
  "payload_equals expected actual =
     (case expected of JObj kvs \<Rightarrow> list_all (\<lambda>(k, v). py_eq (dict_get actual k JNull) v) kvs
      | _ \<Rightarrow> False)"

definition payload_contains :: "json \<Rightarrow> (string \<times> json) list \<Rightarrow> bool" where
  "payload_contains expected actual =
     (case expected of
        JObj kvs \<Rightarrow> (let serialized = json_dumps (JObj actual)
                      in list_all (\<lambda>(k, v). py_in (py_str v) serialized) kvs)
      | _ \<Rightarrow> False)"

definition condition_keys :: "string list" where
  "condition_keys = [''actions'', ''agent_ids'', ''tenant_ids'', ''risk_tiers'', ''amount_gte'',
     ''amount_gt'', ''payload_equals'', ''payload_contains'']"

text \<open>\<open>key in conditions and not test\<close> ends the match; here a test that fails is \<open>Inr False\<close>.\<close>

definition cond :: "(string \<times> json) list \<Rightarrow> string \<Rightarrow> (json \<Rightarrow> bool result) \<Rightarrow> bool result" where
  "cond d k test = (case map_of d k of None \<Rightarrow> Inr True | Some v \<Rightarrow> test v)"

definition matches :: "json \<Rightarrow> agent \<Rightarrow> execution_intent \<Rightarrow> bool result" where
  "matches conditions agent intent =
     (case conditions of
        JObj d \<Rightarrow>
          if list_ex (\<lambda>k. k \<notin> set condition_keys) (map fst d) then Inr False
          else let amount = (case in_requested_amount intent of None \<Rightarrow> 0
                             | Some x \<Rightarrow> if dec_eq x 0 then 0 else x)
               in all_checks
                 [cond d ''actions'' (\<lambda>v. Inr (match_string_list v (in_action intent))),
                  cond d ''agent_ids'' (\<lambda>v. Inr (match_string_list v (ag_id agent))),
                  cond d ''tenant_ids'' (\<lambda>v. Inr (match_string_list v (ag_tenant_id agent))),
                  cond d ''risk_tiers'' (\<lambda>v. Inr (match_string_list v (ag_risk_tier agent))),
                  cond d ''amount_gte'' (\<lambda>v. bindR (decimal_condition v) (\<lambda>x.
                    bindR (pydec_less (Finite amount) x) (\<lambda>less. Inr (\<not> less)))),
                  cond d ''amount_gt'' (\<lambda>v. bindR (decimal_condition v) (\<lambda>x.
                    pydec_less x (Finite amount))),
                  cond d ''payload_equals'' (\<lambda>v. Inr (payload_equals v (in_payload intent))),
                  cond d ''payload_contains'' (\<lambda>v. Inr (payload_contains v (in_payload intent)))]
      | _ \<Rightarrow> Inr False)"

subsection \<open>Rules\<close>

record rule_result =
  rr_outcome :: outcome
  rr_risk_score :: int
  rr_reason :: string
  rr_policy_id :: string

definition denied :: "string \<Rightarrow> string \<Rightarrow> rule_result" where
  "denied reason policy_id =
     \<lparr>rr_outcome = Deny, rr_risk_score = 100, rr_reason = reason, rr_policy_id = policy_id\<rparr>"

text \<open>\<open>effect not in {...}\<close>: a list or dictionary has no hash, so the test raises.\<close>

definition effect_outcome :: "json \<Rightarrow> outcome option result" where
  "effect_outcome v =
     (case v of JStr s \<Rightarrow> Inr (outcome_of s)
      | JArr _ \<Rightarrow> Inl (TypeError ''unhashable type: list'')
      | JObj _ \<Rightarrow> Inl (TypeError ''unhashable type: dict'')
      | _ \<Rightarrow> Inr None)"

text \<open>\<open>isinstance(risk_score, int) and 0 <= risk_score <= 100\<close>; a \<open>bool\<close> is an \<open>int\<close>.\<close>

definition valid_risk_score :: "json \<Rightarrow> int option" where
  "valid_risk_score v =
     (case v of JInt i \<Rightarrow> if 0 \<le> i \<and> i \<le> 100 then Some i else None
      | JBool b \<Rightarrow> Some (if b then 1 else 0)
      | _ \<Rightarrow> None)"

definition matched_reason :: "policy \<Rightarrow> nat \<Rightarrow> string" where
  "matched_reason policy index =
     ''Policy '' @ po_name policy @ '' rule '' @ nat_str index @ '' matched''"

definition rule_reason :: "policy \<Rightarrow> nat \<Rightarrow> json \<Rightarrow> string" where
  "rule_reason policy index v =
     (case v of JStr s \<Rightarrow> if py_strip s = [] then matched_reason policy index else s
      | _ \<Rightarrow> matched_reason policy index)"

text \<open>The body of the loop for one rule that is a dictionary and matches.\<close>

definition apply_rule :: "policy \<Rightarrow> nat \<Rightarrow> (string \<times> json) list \<Rightarrow> rule_result result" where
  "apply_rule policy index rule =
     bindR (effect_outcome (dict_get rule ''effect'' (JStr ''deny''))) (\<lambda>eff.
     case eff of None \<Rightarrow> Inr (denied (''Invalid effect in policy rule '' @ nat_str index) (po_id policy))
     | Some effect \<Rightarrow>
         (case valid_risk_score (dict_get rule ''risk_score'' (JInt 50)) of
            None \<Rightarrow> Inr (denied (''Invalid risk_score in policy rule '' @ nat_str index) (po_id policy))
          | Some risk_score \<Rightarrow>
              Inr \<lparr>rr_outcome = effect, rr_risk_score = risk_score,
                rr_reason = rule_reason policy index
                  (dict_get rule ''reason'' (JStr (matched_reason policy index))),
                rr_policy_id = po_id policy\<rparr>))"

definition evaluate_rule :: "policy \<Rightarrow> agent \<Rightarrow> execution_intent \<Rightarrow> nat \<Rightarrow> json \<Rightarrow> rule_result list result" where
  "evaluate_rule policy agent intent index rule =
     (case rule of
        JObj d \<Rightarrow> bindR (matches (dict_get d ''when'' (JObj [])) agent intent) (\<lambda>m.
          if m then bindR (apply_rule policy index d) (\<lambda>r. Inr [r]) else Inr [])
      | _ \<Rightarrow> Inr [denied (''Malformed rule at index '' @ nat_str index) (po_id policy)])"

fun evaluate_rules :: "policy \<Rightarrow> agent \<Rightarrow> execution_intent \<Rightarrow> nat \<Rightarrow> json list \<Rightarrow> rule_result list result" where
  "evaluate_rules policy agent intent index [] = Inr []"
| "evaluate_rules policy agent intent index (rule # rules) =
     bindR (evaluate_rule policy agent intent index rule) (\<lambda>rs.
     bindR (evaluate_rules policy agent intent (Suc index) rules) (\<lambda>rest. Inr (rs @ rest)))"

definition evaluate_policy :: "policy \<Rightarrow> agent \<Rightarrow> execution_intent \<Rightarrow> rule_result list result" where
  "evaluate_policy policy agent intent =
     (case po_definition policy of
        JObj d \<Rightarrow>
          (case dict_get d ''rules'' (JArr []) of
             JArr rules \<Rightarrow> evaluate_rules policy agent intent 0 rules
           | _ \<Rightarrow> Inr [denied ''Policy rules must be a list'' (po_id policy)])
      | _ \<Rightarrow> Inr [denied ''Policy definition is malformed'' (po_id policy)])"

fun evaluate_policies :: "policy list \<Rightarrow> agent \<Rightarrow> execution_intent \<Rightarrow> rule_result list result" where
  "evaluate_policies [] agent intent = Inr []"
| "evaluate_policies (p # ps) agent intent =
     bindR (evaluate_policy p agent intent) (\<lambda>rs.
     bindR (evaluate_policies ps agent intent) (\<lambda>rest. Inr (rs @ rest)))"

subsection \<open>The decision\<close>

definition base_risk :: "string \<Rightarrow> int" where
  "base_risk tier =
     (if tier = ''low'' then 10 else if tier = ''standard'' then 25
      else if tier = ''high'' then 50 else if tier = ''critical'' then 75 else 100)"

text \<open>The three-way test on the collected results.\<close>

definition combined_outcome :: "rule_result list \<Rightarrow> outcome" where
  "combined_outcome rs =
     (if list_ex (\<lambda>r. rr_outcome r = Deny) rs then Deny
      else if list_ex (\<lambda>r. rr_outcome r = RequireApproval) rs then RequireApproval
      else Allow)"

definition combined_risk :: "string \<Rightarrow> rule_result list \<Rightarrow> int" where
  "combined_risk tier rs = min 100 (foldl max (base_risk tier) (map rr_risk_score rs))"

definition finite_budget :: "pydec option \<Rightarrow> dec option result" where
  "finite_budget r =
     (case r of None \<Rightarrow> Inr None | Some (Finite d) \<Rightarrow> Inr (Some d)
      | Some _ \<Rightarrow> Inl (ValidationError ''remaining_budget''))"

definition final_decision :: "string \<Rightarrow> rule_result list \<Rightarrow> pydec option \<Rightarrow> policy_decision result" where
  "final_decision tier rs left =
     bindR (finite_budget left) (\<lambda>budget.
     new_policy_decision (combined_outcome rs) (combined_risk tier rs)
       (if rs = [] then [''All deterministic controls passed''] else map rr_reason rs)
       (sorted_set (map rr_policy_id rs)) budget None)"

definition denial :: "string \<Rightarrow> policy_decision op" where
  "denial reason = lift_result (new_policy_decision Deny 100 [reason] [] None None)"

definition ordered_policies :: "database \<Rightarrow> policy list" where
  "ordered_policies db = sort_key (\<lambda>p. (po_priority p, po_name p)) (filter po_enabled (policies db))"

text \<open>The budget check: the result it adds, and the remaining budget it reports.\<close>

definition budget_results :: "execution_intent \<Rightarrow> dec \<Rightarrow> string \<Rightarrow> (rule_result list \<times> pydec option) op" where
  "budget_results intent amount currency =
     bindE (remaining (in_agent_id intent) currency) (\<lambda>left.
     case left of
       None \<Rightarrow> ret ([denied ''No active budget assigned'' ''system-budget''], None)
     | Some r \<Rightarrow> bindE (lift_result (pydec_less r (Finite amount))) (\<lambda>exceeds.
         ret (if exceeds
              then [\<lparr>rr_outcome = RequireApproval, rr_risk_score = 90,
                     rr_reason = ''Requested amount exceeds remaining budget'',
                     rr_policy_id = ''system-budget''\<rparr>]
              else [], Some r)))"

definition evaluate :: "execution_intent \<Rightarrow> policy_decision op" where
  "evaluate intent =
     bindE (execute (\<lambda>db. find_row (\<lambda>a. ag_id a = in_agent_id intent) (agents db))) (\<lambda>found.
     case found of
       None \<Rightarrow> denial ''Agent is not registered or active''
     | Some agent \<Rightarrow>
         if \<not> ag_active agent then denial ''Agent is not registered or active''
         else if in_action intent \<notin> set (ag_allowed_actions agent) \<and> ''*'' \<notin> set (ag_allowed_actions agent)
         then denial ''Action is not allowed for agent''
         else bindE (execute (\<lambda>db. Inr (ordered_policies db))) (\<lambda>policies.
              bindE (lift_result (evaluate_policies policies agent intent)) (\<lambda>rs.
              case in_requested_amount intent of
                None \<Rightarrow> lift_result (final_decision (ag_risk_tier agent) rs None)
              | Some amount \<Rightarrow>
                  (case in_currency intent of
                     None \<Rightarrow> denial ''Currency is required for financial intent''
                   | Some currency \<Rightarrow>
                       bindE (budget_results intent amount currency) (\<lambda>(extra, left).
                         lift_result (final_decision (ag_risk_tier agent) (rs @ extra) left))))))"

subsection \<open>Combining results\<close>

lemma outcome_Allow_iff: "x = Allow \<longleftrightarrow> x \<noteq> Deny \<and> x \<noteq> RequireApproval"
  by (cases x) simp_all

lemma combined_outcome_Deny: "combined_outcome rs = Deny \<longleftrightarrow> (\<exists>r \<in> set rs. rr_outcome r = Deny)"
  by (simp add: combined_outcome_def list_ex_iff)

lemma combined_outcome_Allow: "combined_outcome rs = Allow \<longleftrightarrow> (\<forall>r \<in> set rs. rr_outcome r = Allow)"
  by (auto simp: combined_outcome_def list_ex_iff outcome_Allow_iff)

text \<open>The cascade of \<open>any\<close> tests is the maximum in the order of severity.\<close>

lemma combined_outcome_max: "combined_outcome rs = foldr max (map rr_outcome rs) Allow"
proof (induction rs)
  case Nil
  then show ?case by (simp add: combined_outcome_def)
next
  case (Cons r rs)
  have "combined_outcome (r # rs) = max (rr_outcome r) (combined_outcome rs)"
    by (cases "rr_outcome r") (auto simp: combined_outcome_def max_def less_eq_outcome_def)
  with Cons show ?case by simp
qed

lemma combined_outcome_ge: "r \<in> set rs \<Longrightarrow> rr_outcome r \<le> combined_outcome rs"
  unfolding combined_outcome_max by (induction rs) (auto simp: le_max_iff_disj)

lemma combined_outcome_append:
  "combined_outcome (rs @ rs') = max (combined_outcome rs) (combined_outcome rs')"
  by (auto simp: combined_outcome_def max_def less_eq_outcome_def)

lemma foldl_max_Max: "foldl max (a::int) xs = Max (insert a (set xs))"
proof (induction xs arbitrary: a)
  case (Cons x xs)
  have "Max (insert (max a x) (set xs)) = Max (insert a (insert x (set xs)))"
    by (cases "xs = []") (simp_all add: max.assoc)
  with Cons show ?case by simp
qed simp

lemma combined_risk_Max:
  "combined_risk tier rs = min 100 (Max (insert (base_risk tier) (rr_risk_score ` set rs)))"
  by (simp add: combined_risk_def foldl_max_Max)

lemma base_risk_range: "10 \<le> base_risk tier" "base_risk tier \<le> 100"
  by (auto simp: base_risk_def)

lemma combined_risk_range: "base_risk tier \<le> combined_risk tier rs" "combined_risk tier rs \<le> 100"
  using base_risk_range(2) [of tier] by (simp_all add: combined_risk_Max)

lemma combined_mset:
  assumes "mset rs = mset rs'"
  shows "combined_outcome rs = combined_outcome rs'" and "combined_risk tier rs = combined_risk tier rs'"
    and "sorted_set (map rr_policy_id rs) = sorted_set (map rr_policy_id rs')"
  using assms [THEN mset_eq_setD]
  by (simp_all add: combined_outcome_def list_ex_iff combined_risk_Max sorted_set_eq_sorted_list_of_set)

lemma final_decision_Inr:
  "final_decision tier rs left = Inr d \<longleftrightarrow>
     (\<exists>budget. finite_budget left = Inr budget \<and>
       d = \<lparr>pd_outcome = combined_outcome rs, pd_risk_score = combined_risk tier rs,
            pd_reasons = map model_strip (if rs = [] then [''All deterministic controls passed''] else map rr_reason rs),
            pd_policy_ids = map model_strip (sorted_set (map rr_policy_id rs)),
            pd_remaining_budget = budget, pd_hitl_transaction_id = None\<rparr>)"
proof -
  have "int_field 0 (Some 100) (combined_risk tier rs) = Inr (combined_risk tier rs)"
    using combined_risk_range [of tier rs] base_risk_range(1) [of tier] by (simp add: int_field_def)
  then show ?thesis
    unfolding final_decision_def new_policy_decision_def bindR_eq_Inr by auto
qed

text \<open>The decision of an early return.\<close>

definition denial_decision :: "string \<Rightarrow> policy_decision" where
  "denial_decision reason =
     \<lparr>pd_outcome = Deny, pd_risk_score = 100, pd_reasons = [model_strip reason], pd_policy_ids = [],
       pd_remaining_budget = None, pd_hitl_transaction_id = None\<rparr>"

lemma denial_run: "denial reason w = (Inr (denial_decision reason), w)"
  by (simp add: denial_def lift_result_def new_policy_decision_def int_field_def denial_decision_def)

subsection \<open>What an evaluation did\<close>

definition agent_permits :: "agent \<Rightarrow> execution_intent \<Rightarrow> bool" where
  "agent_permits a i \<longleftrightarrow> ag_active a
     \<and> (in_action i \<in> set (ag_allowed_actions a) \<or> ''*'' \<in> set (ag_allowed_actions a))"

definition find_agent :: "database \<Rightarrow> string \<Rightarrow> agent option result" where
  "find_agent db i = find_row (\<lambda>a. ag_id a = i) (agents db)"

text \<open>The three early returns.\<close>

definition early_denial :: "database \<Rightarrow> execution_intent \<Rightarrow> bool" where
  "early_denial db i =
     (case find_agent db (in_agent_id i) of
        Inr (Some a) \<Rightarrow> \<not> agent_permits a i \<or> (in_requested_amount i \<noteq> None \<and> in_currency i = None)
      | _ \<Rightarrow> True)"

definition has_active_budget :: "database \<Rightarrow> string \<Rightarrow> string \<Rightarrow> bool" where
  "has_active_budget db a c =
     (case find_row (is_budget a c) (budgets db) of Inr (Some b) \<Rightarrow> bu_active b | _ \<Rightarrow> False)"

lemma quiet_evaluate: "obeys same_session (evaluate i)"
  unfolding evaluate_def denial_def budget_results_def case_prod_beta
  by (intro quiet_governor)

lemma remaining_active:
  assumes "remaining a c w = (Inr v, w')"
  shows "has_active_budget (w_db w) a c \<longleftrightarrow> v \<noteq> None"
proof -
  let ?q = "find_row (is_budget a c) (budgets (w_db w))"
  note run = assms [unfolded remaining_def get_budget_def execute_bind Let_def]
  from run have ok: "w_session_ok w" by (simp split: if_splits)
  with run obtain found where q: "?q = Inr found" by (cases ?q) simp_all
  show ?thesis
  proof (cases "\<exists>b. found = Some b \<and> bu_active b")
    case False
    then have "ret None w = (Inr v, w')" using run ok q by (cases found) auto
    then show ?thesis using False q by (auto simp: ret_def has_active_budget_def split: option.split)
  next
    case True
    then have "v \<noteq> None" using run ok q by (auto simp: bindE_Inr ret_def)
    then show ?thesis using True q by (auto simp: has_active_budget_def)
  qed
qed

lemma budget_results_cases:
  assumes "budget_results i amount currency w = (Inr (extra, left), w')"
  obtains (none) "remaining (in_agent_id i) currency w = (Inr None, w')" and "left = None"
      and "extra = [denied ''No active budget assigned'' ''system-budget'']"
    | (within) r where "remaining (in_agent_id i) currency w = (Inr (Some r), w')" and "left = Some r"
      and "extra = []" and "pydec_less r (Finite amount) = Inr False"
    | (over) r where "remaining (in_agent_id i) currency w = (Inr (Some r), w')" and "left = Some r"
      and "map rr_outcome extra = [RequireApproval]" and "pydec_less r (Finite amount) = Inr True"
  using assms that
  by (auto simp: budget_results_def bindE_def lift_result_def ret_def
      split: prod.splits sum.splits option.splits if_splits)

text \<open>An evaluation either returns early with a denial, or combines the results of all policies.\<close>

lemma evaluate_cases:
  assumes "evaluate i w = (Inr d, w')"
  obtains (early) reason where "d = denial_decision reason" and "w' = w" and "early_denial (w_db w) i"
    | (plain) a rs where "find_agent (w_db w) (in_agent_id i) = Inr (Some a)" and "agent_permits a i"
        and "evaluate_policies (ordered_policies (w_db w)) a i = Inr rs"
        and "in_requested_amount i = None"
        and "final_decision (ag_risk_tier a) rs None = Inr d" and "w' = w"
    | (financial) a rs amount currency extra left
      where "find_agent (w_db w) (in_agent_id i) = Inr (Some a)" and "agent_permits a i"
        and "evaluate_policies (ordered_policies (w_db w)) a i = Inr rs"
        and "in_requested_amount i = Some amount" and "in_currency i = Some currency"
        and "budget_results i amount currency w = (Inr (extra, left), w')"
        and "final_decision (ag_risk_tier a) (rs @ extra) left = Inr d"
proof -
  let ?q = "find_agent (w_db w) (in_agent_id i)"
  note run = assms [unfolded evaluate_def execute_bind find_agent_def [symmetric] lift_bind]
  from run have ok: "w_session_ok w" by (simp split: if_splits)
  with run obtain found where q: "?q = Inr found" by (cases ?q) simp_all
  show thesis
  proof (cases "\<exists>a. found = Some a \<and> agent_permits a i")
    case False
    then have "\<exists>reason. denial reason w = (Inr d, w')"
      using run ok q by (cases found) (auto simp: agent_permits_def split: if_splits)
    moreover have "early_denial (w_db w) i"
      using False q by (auto simp: early_denial_def split: option.split)
    ultimately show thesis using early by (auto simp: denial_run)
  next
    case True
    then obtain a where a: "found = Some a" "agent_permits a i" by blast
    from run ok q a obtain rs where rs: "evaluate_policies (ordered_policies (w_db w)) a i = Inr rs"
      by (cases "evaluate_policies (ordered_policies (w_db w)) a i")
        (auto simp: agent_permits_def split: if_splits)
    note run = run [unfolded q sum.case option.case a(1)]
    from run ok rs a(2) have rest: "(case in_requested_amount i of
         None \<Rightarrow> lift_result (final_decision (ag_risk_tier a) rs None) w
       | Some amount \<Rightarrow>
           (case in_currency i of
              None \<Rightarrow> denial ''Currency is required for financial intent'' w
            | Some currency \<Rightarrow>
                bindE (budget_results i amount currency) (\<lambda>(extra, left).
                  lift_result (final_decision (ag_risk_tier a) (rs @ extra) left)) w)) = (Inr d, w')"
      by (cases "in_requested_amount i"; cases "in_currency i")
        (auto simp: agent_permits_def split: if_splits)
    show thesis
    proof (cases "in_requested_amount i")
      case None
      with rest have "final_decision (ag_risk_tier a) rs None = Inr d" and "w' = w"
        by (simp_all add: lift_result_def)
      with None show thesis using rs q a by (intro plain) simp_all
    next
      case amt: (Some amount)
      show thesis
      proof (cases "in_currency i")
        case None
        with rest amt have "denial ''Currency is required for financial intent'' w = (Inr d, w')" by simp
        moreover have "early_denial (w_db w) i" using None amt q a by (simp add: early_denial_def)
        ultimately show thesis using early by (auto simp: denial_run)
      next
        case cur: (Some currency)
        then obtain extra left w1 where b: "budget_results i amount currency w = (Inr (extra, left), w1)"
          and fin: "lift_result (final_decision (ag_risk_tier a) (rs @ extra) left) w1 = (Inr d, w')"
          using rest unfolding amt cur option.case bindE_Inr by auto
        then show thesis
          using rs q a amt cur by (intro financial) (auto simp: lift_result_def)
      qed
    qed
  qed
qed

subsection \<open>When a policy refuses\<close>

text \<open>
  A specification of refusal read off the policy alone: the definition or its rule list is
  malformed, a rule is not a dictionary, or a rule that matches has an effect other than
  \<open>allow\<close> and \<open>require_approval\<close>, or no valid risk score.
\<close>

definition rule_refuses :: "agent \<Rightarrow> execution_intent \<Rightarrow> json \<Rightarrow> bool" where
  "rule_refuses a i rule =
     (case rule of
        JObj d \<Rightarrow> matches (dict_get d ''when'' (JObj [])) a i = Inr True
          \<and> (dict_get d ''effect'' (JStr ''deny'') \<notin> {JStr ''allow'', JStr ''require_approval''}
             \<or> valid_risk_score (dict_get d ''risk_score'' (JInt 50)) = None)
      | _ \<Rightarrow> True)"

definition refuses :: "policy \<Rightarrow> agent \<Rightarrow> execution_intent \<Rightarrow> bool" where
  "refuses p a i =
     (case po_definition p of
        JObj d \<Rightarrow> (case dict_get d ''rules'' (JArr []) of
                     JArr rules \<Rightarrow> list_ex (rule_refuses a i) rules
                   | _ \<Rightarrow> True)
      | _ \<Rightarrow> True)"

definition has_denial :: "rule_result list \<Rightarrow> bool" where
  "has_denial rs \<longleftrightarrow> (\<exists>r \<in> set rs. rr_outcome r = Deny)"

lemma has_denial_simps [simp]:
  "\<not> has_denial []" "has_denial (r # rs) \<longleftrightarrow> rr_outcome r = Deny \<or> has_denial rs"
  "has_denial (rs @ rs') \<longleftrightarrow> has_denial rs \<or> has_denial rs'"
  by (auto simp: has_denial_def)

lemma denied_outcome [simp]: "rr_outcome (denied reason p) = Deny"
  by (simp add: denied_def)

lemma apply_rule_denies:
  assumes "apply_rule p n d = Inr r"
  shows "rr_outcome r = Deny \<longleftrightarrow>
    dict_get d ''effect'' (JStr ''deny'') \<notin> {JStr ''allow'', JStr ''require_approval''}
    \<or> valid_risk_score (dict_get d ''risk_score'' (JInt 50)) = None"
proof -
  let ?e = "dict_get d ''effect'' (JStr ''deny'')"
  from assms obtain eff where e: "effect_outcome ?e = Inr eff" by (auto simp: apply_rule_def bindR_eq_Inr)
  then have eff: "eff = None \<or> eff = Some Deny \<longleftrightarrow> ?e \<notin> {JStr ''allow'', JStr ''require_approval''}"
    by (auto simp: effect_outcome_def outcome_of_def split: json.splits if_splits)
  show ?thesis
    using assms e eff
    by (cases eff; cases "valid_risk_score (dict_get d ''risk_score'' (JInt 50))")
      (auto simp: apply_rule_def)
qed

lemma evaluate_rule_denies:
  assumes "evaluate_rule p a i n rule = Inr rs"
  shows "has_denial rs \<longleftrightarrow> rule_refuses a i rule"
proof (cases rule)
  case (JObj d)
  from assms obtain m where m: "matches (dict_get d ''when'' (JObj [])) a i = Inr m"
    by (auto simp: evaluate_rule_def JObj bindR_eq_Inr)
  show ?thesis
  proof (cases m)
    case True
    then obtain r where "apply_rule p n d = Inr r" and "rs = [r]"
      using assms m by (auto simp: evaluate_rule_def JObj bindR_eq_Inr)
    then show ?thesis using apply_rule_denies m True by (simp add: rule_refuses_def JObj)
  next
    case False
    then show ?thesis using assms m by (simp add: evaluate_rule_def rule_refuses_def JObj)
  qed
qed (use assms in \<open>auto simp: evaluate_rule_def rule_refuses_def\<close>)

lemma evaluate_rules_denies:
  "evaluate_rules p a i n rules = Inr rs \<Longrightarrow> has_denial rs \<longleftrightarrow> list_ex (rule_refuses a i) rules"
proof (induction rules arbitrary: n rs)
  case (Cons rule rules)
  then obtain r1 r2 where "evaluate_rule p a i n rule = Inr r1"
    and "evaluate_rules p a i (Suc n) rules = Inr r2" and "rs = r1 @ r2"
    by (auto simp: bindR_eq_Inr)
  then show ?case using Cons.IH evaluate_rule_denies by simp
qed simp

lemma evaluate_policy_denies:
  assumes "evaluate_policy p a i = Inr rs"
  shows "has_denial rs \<longleftrightarrow> refuses p a i"
proof (cases "po_definition p")
  case (JObj d)
  show ?thesis
  proof (cases "dict_get d ''rules'' (JArr [])")
    case (JArr rules)
    then show ?thesis
      using assms evaluate_rules_denies [of p a i 0 rules] by (simp add: evaluate_policy_def refuses_def JObj)
  qed (use assms in \<open>auto simp: evaluate_policy_def refuses_def JObj\<close>)
qed (use assms in \<open>auto simp: evaluate_policy_def refuses_def\<close>)

lemma evaluate_policies_Inr:
  "evaluate_policies ps a i = Inr rs \<longleftrightarrow>
     (\<forall>p \<in> set ps. \<not> isl (evaluate_policy p a i)) \<and> rs = concat (map (\<lambda>p. projr (evaluate_policy p a i)) ps)"
proof (induction ps arbitrary: rs)
  case (Cons p ps)
  then show ?case by (cases "evaluate_policy p a i") (auto simp: bindR_eq_Inr)
qed auto

lemma evaluate_policies_denies:
  assumes "evaluate_policies ps a i = Inr rs"
  shows "has_denial rs \<longleftrightarrow> (\<exists>p \<in> set ps. refuses p a i)"
  using assms
proof (induction ps arbitrary: rs)
  case (Cons p ps)
  then obtain r1 r2 where "evaluate_policy p a i = Inr r1" "evaluate_policies ps a i = Inr r2" "rs = r1 @ r2"
    by (auto simp: bindR_eq_Inr)
  then show ?case using Cons.IH evaluate_policy_denies by simp
qed simp

lemma combined_denial: "combined_outcome rs = Deny \<longleftrightarrow> has_denial rs"
  by (simp add: combined_outcome_Deny has_denial_def)

lemma evaluate_denies:
  assumes "evaluate i w = (Inr d, w')"
  shows "pd_outcome d = Deny \<longleftrightarrow>
    (case find_agent (w_db w) (in_agent_id i) of
       Inr (Some a) \<Rightarrow> \<not> agent_permits a i
         \<or> (\<exists>p \<in> set (policies (w_db w)). po_enabled p \<and> refuses p a i)
         \<or> (in_requested_amount i \<noteq> None
             \<and> (case in_currency i of None \<Rightarrow> True
                | Some c \<Rightarrow> \<not> has_active_budget (w_db w) (in_agent_id i) c))
     | _ \<Rightarrow> True)"
  using assms
proof (cases rule: evaluate_cases)
  case (early reason)
  then show ?thesis
    by (auto simp: denial_decision_def early_denial_def split: sum.splits option.splits)
next
  case (plain a rs)
  have "pd_outcome d = Deny \<longleftrightarrow> has_denial rs"
    using plain(5) by (auto simp: final_decision_Inr combined_denial)
  then show ?thesis using plain evaluate_policies_denies by (auto simp: ordered_policies_def)
next
  case (financial a rs amount currency extra left)
  have "pd_outcome d = Deny \<longleftrightarrow> has_denial rs \<or> has_denial extra"
    using financial(7) by (auto simp: final_decision_Inr combined_denial)
  moreover have "has_denial extra \<longleftrightarrow> \<not> has_active_budget (w_db w) (in_agent_id i) currency"
    using financial(6) by (cases rule: budget_results_cases) (auto dest!: remaining_active)
  ultimately show ?thesis using financial evaluate_policies_denies by (auto simp: ordered_policies_def)
qed

text \<open>An amount that is allowed fits what remains of the budget, as far as the cache knows.\<close>

lemma evaluate_allows:
  assumes "evaluate i w = (Inr d, w')" and "pd_outcome d = Allow" and "in_requested_amount i = Some x"
  obtains c r w1 where "in_currency i = Some c" and "has_active_budget (w_db w) (in_agent_id i) c"
    and "remaining (in_agent_id i) c w = (Inr (Some (Finite r)), w1)"
    and "pd_remaining_budget d = Some r" and "x \<le> r"
  using assms(1)
proof (cases rule: evaluate_cases)
  case (early reason)
  then show thesis using assms(2) by (simp add: denial_decision_def)
next
  case (plain a rs)
  then show thesis using assms(3) by simp
next
  case (financial a rs amount currency extra left)
  from financial(7) assms(2) have allow: "\<forall>r \<in> set (rs @ extra). rr_outcome r = Allow"
    and fb: "finite_budget left = Inr (pd_remaining_budget d)"
    by (auto simp: final_decision_Inr combined_outcome_Allow)
  from financial(6) show thesis
  proof (cases rule: budget_results_cases)
    case none
    then show thesis using allow by simp
  next
    case (within r)
    from within(2) fb obtain b where r: "r = Finite b" and "pd_remaining_budget d = Some b"
      by (auto simp: finite_budget_def split: pydec.splits)
    moreover have "x \<le> b"
      using within(4) r financial(4) assms(3) by (simp add: dec_less_iff dec_le_iff not_less)
    ultimately show thesis
      using that [of currency b] within financial remaining_active by auto
  next
    case (over r)
    then show thesis using allow by auto
  qed
qed

lemma evaluate_risk_cases:
  assumes "evaluate i w = (Inr d, w')"
  obtains "pd_risk_score d = 100"
    | a rs where "find_agent (w_db w) (in_agent_id i) = Inr (Some a)"
        and "pd_risk_score d = combined_risk (ag_risk_tier a) rs"
  using assms
  by (cases rule: evaluate_cases) (auto simp: denial_decision_def final_decision_Inr)

lemma evaluate_risk:
  assumes "evaluate i w = (Inr d, w')"
  shows "0 \<le> pd_risk_score d \<and> pd_risk_score d \<le> 100"
    and "find_agent (w_db w) (in_agent_id i) = Inr (Some a) \<Longrightarrow> base_risk (ag_risk_tier a) \<le> pd_risk_score d"
proof -
  show "0 \<le> pd_risk_score d \<and> pd_risk_score d \<le> 100"
    using assms
  proof (cases rule: evaluate_risk_cases)
    case (2 a rs)
    then show ?thesis
      using base_risk_range [of "ag_risk_tier a"] combined_risk_range [of "ag_risk_tier a" rs] by simp
  qed simp
  show "base_risk (ag_risk_tier a) \<le> pd_risk_score d" if "find_agent (w_db w) (in_agent_id i) = Inr (Some a)"
    using assms
    by (cases rule: evaluate_risk_cases) (use that base_risk_range combined_risk_range in auto)
qed

subsection \<open>Order and unknown conditions\<close>

lemma evaluate_policies_mset:
  assumes "evaluate_policies ps a i = Inr rs" and "mset qs = mset ps"
  obtains rs' where "evaluate_policies qs a i = Inr rs'" and "mset rs' = mset rs"
proof -
  let ?f = "\<lambda>p. projr (evaluate_policy p a i)"
  let ?rs = "concat (map ?f qs)"
  have "evaluate_policies qs a i = Inr ?rs"
    using assms mset_eq_setD [OF assms(2)] by (simp add: evaluate_policies_Inr)
  moreover have "mset ?rs = mset rs"
  proof -
    have "mset (concat (map ?f xs)) = \<Sum>\<^sub># (image_mset (\<lambda>p. mset (?f p)) (mset xs))" for xs
      by (induction xs) auto
    then show ?thesis using assms by (simp add: evaluate_policies_Inr)
  qed
  ultimately show thesis by (rule that)
qed

lemma matches_unknown:
  assumes "k \<in> fst ` set d" and "k \<notin> set condition_keys"
  shows "matches (JObj d) a i = Inr False"
proof -
  have "list_ex (\<lambda>k. k \<notin> set condition_keys) (map fst d)" using assms by (auto simp: list_ex_iff)
  then show ?thesis by (simp only: matches_def json.case if_True)
qed

subsection \<open>Properties\<close>

text \<open>
  C4: A decision is a denial exactly when the agent is missing, inactive or not permitted the
  action, an enabled policy refuses (malformed definition, rule list or rule, or a matching
  rule with effect deny, an invalid effect or an invalid risk score), or the intent asks for
  an amount without a currency or without an active budget.
\<close>

theorem decision_denies_iff:
  assumes "evaluate i w = (Inr d, w')"
  shows "pd_outcome d = Deny \<longleftrightarrow>
    (case find_agent (w_db w) (in_agent_id i) of
       Inr (Some a) \<Rightarrow> \<not> agent_permits a i
         \<or> (\<exists>p \<in> set (policies (w_db w)). po_enabled p \<and> refuses p a i)
         \<or> (in_requested_amount i \<noteq> None
             \<and> (case in_currency i of None \<Rightarrow> True
                | Some c \<Rightarrow> \<not> has_active_budget (w_db w) (in_agent_id i) c))
     | _ \<Rightarrow> True)"
  using assms by (rule evaluate_denies)

definition sample_allow :: policy_decision where
  "sample_allow = \<lparr>pd_outcome = Allow, pd_risk_score = 25,
     pd_reasons = [''All deterministic controls passed''], pd_policy_ids = [],
     pd_remaining_budget = Some (Dec 100 0), pd_hitl_transaction_id = None\<rparr>"

lemma sample_allow_run: "fst (evaluate (sample_intent (Dec 20 0)) sample_world) = Inr sample_allow"
  by code_simp

lemma decision_denies_iff_witness:
  "\<exists>a. find_agent (w_db sample_world) ''agent-1'' = Inr (Some a)
     \<and> \<not> (\<exists>p \<in> set (policies (w_db sample_world)). po_enabled p \<and> refuses p a (sample_intent (Dec 20 0)))"
proof -
  obtain w' where run: "evaluate (sample_intent (Dec 20 0)) sample_world = (Inr sample_allow, w')"
    using fst_run [OF sample_allow_run] by blast
  have "pd_outcome sample_allow \<noteq> Deny" by (simp add: sample_allow_def)
  then show ?thesis
    using decision_denies_iff [OF run]
    by (auto simp: sample_intent_def split: sum.splits option.splits)
qed

text \<open>
  C18: When an intent that asks for an amount is allowed, it names a currency, the agent has an
  active budget in that currency, and the amount is at most the remaining amount that the
  decision reports, which is what the governor returned.
\<close>

theorem allowed_amount_fits:
  assumes "evaluate i w = (Inr d, w')" and "pd_outcome d = Allow" and "in_requested_amount i = Some x"
  shows "\<exists>c r w1. in_currency i = Some c \<and> has_active_budget (w_db w) (in_agent_id i) c
    \<and> remaining (in_agent_id i) c w = (Inr (Some (Finite r)), w1)
    \<and> pd_remaining_budget d = Some r \<and> x \<le> r"
  using evaluate_allows [OF assms] by metis

lemma allowed_amount_fits_witness: "\<exists>r. pd_remaining_budget sample_allow = Some r \<and> Dec 20 0 \<le> r"
proof -
  obtain w' where run: "evaluate (sample_intent (Dec 20 0)) sample_world = (Inr sample_allow, w')"
    using fst_run [OF sample_allow_run] by blast
  show ?thesis
    using allowed_amount_fits [OF run, of "Dec 20 0"] by (auto simp: sample_allow_def sample_intent_def)
qed

text \<open>
  C24: The order in which the policies are evaluated does not influence the outcome, the risk
  score or the policy ids of a decision: any rearrangement of the policies evaluates without
  an exception and combines to the same three.
\<close>

theorem policy_order_irrelevant:
  assumes "evaluate_policies ps a i = Inr rs" and "mset qs = mset ps"
  shows "\<exists>rs'. evaluate_policies qs a i = Inr rs' \<and> combined_outcome rs' = combined_outcome rs
    \<and> combined_risk tier rs' = combined_risk tier rs
    \<and> sorted_set (map rr_policy_id rs') = sorted_set (map rr_policy_id rs)"
  using evaluate_policies_mset [OF assms] combined_mset by metis

lemma policy_order_irrelevant_witness:
  "\<exists>rs'. evaluate_policies [sample_policy, sample_policy_2] sample_agent (sample_intent (Dec 60 0)) = Inr rs'
     \<and> combined_outcome rs' = RequireApproval \<and> combined_risk ''low'' rs' = 60"
proof -
  obtain rs where rs: "evaluate_policies [sample_policy_2, sample_policy] sample_agent (sample_intent (Dec 60 0)) = Inr rs"
    and "combined_outcome rs = RequireApproval" and "combined_risk ''low'' rs = 60"
  proof -
    let ?r = "evaluate_policies [sample_policy_2, sample_policy] sample_agent (sample_intent (Dec 60 0))"
    have "\<not> isl ?r" and "combined_outcome (projr ?r) = RequireApproval" and "combined_risk ''low'' (projr ?r) = 60"
      by code_simp+
    then show thesis using that by (cases ?r) auto
  qed
  then show ?thesis
    using policy_order_irrelevant [OF rs, of "[sample_policy, sample_policy_2]" "''low''"]
    by (auto simp: add_mset_commute)
qed

text \<open>
  The outcome of a decision is the most severe outcome among the results (allow below
  require approval below deny), and allow when there are none.
\<close>

theorem combined_outcome_severest:
  "combined_outcome rs = foldr max (map rr_outcome rs) Allow"
  by (rule combined_outcome_max)

text \<open>
  The risk score of a decision is between 0 and 100, and for a registered agent it is at
  least the base risk of its tier.
\<close>

theorem decision_risk_range:
  assumes "evaluate i w = (Inr d, w')"
  shows "0 \<le> pd_risk_score d \<and> pd_risk_score d \<le> 100
    \<and> (\<forall>a. find_agent (w_db w) (in_agent_id i) = Inr (Some a) \<longrightarrow> base_risk (ag_risk_tier a) \<le> pd_risk_score d)"
  using evaluate_risk [OF assms] by blast

lemma decision_risk_range_witness: "pd_risk_score sample_allow \<le> 100 \<and> 25 \<le> pd_risk_score sample_allow"
proof -
  obtain w' where run: "evaluate (sample_intent (Dec 20 0)) sample_world = (Inr sample_allow, w')"
    using fst_run [OF sample_allow_run] by blast
  have "find_agent (w_db sample_world) (in_agent_id (sample_intent (Dec 20 0))) = Inr (Some sample_agent)"
    by code_simp
  moreover have "base_risk (ag_risk_tier sample_agent) = 25" by code_simp
  ultimately show ?thesis using decision_risk_range [OF run] by auto
qed

text \<open>
  Evaluating an intent never changes the database, the rollback point or the state of the
  session, whether it returns a decision or raises.
\<close>

theorem evaluate_reads_only:
  "w_db (snd (evaluate i w)) = w_db w \<and> w_base (snd (evaluate i w)) = w_base w
     \<and> w_session_ok (snd (evaluate i w)) = w_session_ok w"
  using obeysD [OF quiet_evaluate, of w i] by (simp add: same_session_def)

text \<open>
  A rule whose condition names a key the engine does not know is skipped without a trace,
  also a rule with effect deny.  (The service calls itself fail-closed for malformed
  policies; for a misspelt condition it is not.)
\<close>

theorem unknown_condition_skips_rule:
  assumes "dict_get rule ''when'' (JObj []) = JObj conditions"
    and "k \<in> fst ` set conditions" and "k \<notin> set condition_keys"
  shows "evaluate_rule p a i n (JObj rule) = Inr []"
  using matches_unknown [OF assms(2,3)] by (simp add: evaluate_rule_def assms(1))

lemma unknown_condition_skips_rule_witness:
  "evaluate_rule sample_policy sample_agent (sample_intent (Dec 60 0)) 0
     (JObj [(''when'', JObj [(''action'', JArr [JStr ''pay''])]), (''effect'', JStr ''deny'')]) = Inr []"
  by (rule unknown_condition_skips_rule [of _ "[(''action'', JArr [JStr ''pay''])]" "''action''"])
    (simp_all add: dict_get_def condition_keys_def)

end
