(* ===== verification/Audit_Trail.thy ===== *)
theory Audit_Trail
  imports Samples "HOL-Library.Sublist"
begin

text \<open>
  \<open>marcel/security/audit.py\<close>: the signer, and the logger that appends to and verifies the
  hash chain of audit records.  SHA-256 and HMAC come from the platform.
\<close>

subsection \<open>The signer\<close>

definition new_signer :: "string \<Rightarrow> string result" where
  "new_signer hmac_key =
     (if length hmac_key < 32 then Inl (ValueError ''Audit HMAC key must be at least 32 characters'')
      else Inr hmac_key)"

definition sign :: "platform \<Rightarrow> string \<Rightarrow> string \<Rightarrow> string" where
  "sign P key payload = hmac_sha256_hex P key payload"

text \<open>\<open>hmac.compare_digest\<close> takes strings only when they are ASCII.\<close>

definition compare_digest :: "string \<Rightarrow> string \<Rightarrow> bool result" where
  "compare_digest a b =
     (if is_ascii a \<and> is_ascii b then Inr (a = b)
      else Inl (TypeError ''comparing strings with non-ASCII characters is not supported''))"

definition verify_signature :: "platform \<Rightarrow> string \<Rightarrow> string \<Rightarrow> string \<Rightarrow> bool result" where
  "verify_signature P key payload signature = compare_digest (sign P key payload) signature"

subsection \<open>The logger\<close>

text \<open>The text that is hashed.\<close>

definition entry_json :: "int \<Rightarrow> string \<Rightarrow> string \<Rightarrow> json \<Rightarrow> string option \<Rightarrow> datetime \<Rightarrow> json" where
  "entry_json sequence event_type actor_id event_payload previous_hash created_at = JObj
     [(''sequence_number'', JInt sequence), (''event_type'', JStr event_type),
      (''actor_id'', JStr actor_id), (''event_payload'', event_payload),
      (''previous_hash'', opt_json JStr previous_hash), (''created_at'', JStr (isoformat created_at))]"

text \<open>\<open>order_by(sequence_number.desc()).limit(1)\<close>; the column is unique.\<close>

definition last_entry :: "audit_log list \<Rightarrow> audit_log option" where
  "last_entry rows =
     (let s = sort_key au_sequence_number rows in if s = [] then None else Some (last s))"

text \<open>The row as the columns keep it.\<close>

definition stored_entry :: "platform \<Rightarrow> audit_log \<Rightarrow> audit_log" where
  "stored_entry P r = r\<lparr>au_event_payload := stored_json P (au_event_payload r),
     au_created_at := stored_time P (au_created_at r)\<rparr>"

definition audit_clash :: "audit_log \<Rightarrow> database \<Rightarrow> bool" where
  "audit_clash r db = list_ex (\<lambda>q. au_sequence_number q = au_sequence_number r
     \<or> au_entry_hash q = au_entry_hash r \<or> au_id q = au_id r) (audit_logs db)"

text \<open>The record \<open>append\<close> builds after the previous one; its identifier is given at the flush.\<close>

definition new_entry :: "platform \<Rightarrow> string \<Rightarrow> string \<Rightarrow> string \<Rightarrow> json \<Rightarrow> audit_log option \<Rightarrow> datetime
    \<Rightarrow> string \<Rightarrow> audit_log" where
  "new_entry P key event_type actor_id event_payload previous created_at i =
     (let sequence = (case previous of None \<Rightarrow> 1 | Some r \<Rightarrow> au_sequence_number r + 1);
          previous_hash = map_option au_entry_hash previous;
          material = canonical_json (entry_json sequence event_type actor_id event_payload
            previous_hash created_at);
          entry_hash = sha256_hex P material
      in \<lparr>au_id = i, au_sequence_number = sequence, au_event_type = event_type,
          au_actor_id = actor_id, au_event_payload = event_payload, au_previous_hash = previous_hash,
          au_entry_hash = entry_hash, au_signature = sign P key entry_hash, au_created_at = created_at\<rparr>)"

definition append :: "platform \<Rightarrow> string \<Rightarrow> string \<Rightarrow> string \<Rightarrow> json \<Rightarrow> audit_log op" where
  "append P key event_type actor_id event_payload =
     (if event_type = [] \<or> 128 < length event_type
      then raise (ValueError ''event_type must be between 1 and 128 characters'')
      else if actor_id = [] \<or> 128 < length actor_id
      then raise (ValueError ''actor_id must be between 1 and 128 characters'')
      else bindE (execute (\<lambda>db. Inr (last_entry (audit_logs db)))) (\<lambda>previous.
           bindE now_utc (\<lambda>created_at.
           bindE uuid4 (\<lambda>i.
             let r = new_entry P key event_type actor_id event_payload previous created_at i
             in bindE (add_and_flush (audit_clash r)
                         (\<lambda>db. db\<lparr>audit_logs := audit_logs db @ [stored_entry P r]\<rparr>))
                  (\<lambda>_. ret r)))))"

definition entry_material :: "audit_log \<Rightarrow> string" where
  "entry_material r = canonical_json (entry_json (au_sequence_number r) (au_event_type r)
     (au_actor_id r) (au_event_payload r) (au_previous_hash r) (au_created_at r))"

fun verify_records :: "platform \<Rightarrow> string \<Rightarrow> audit_log list \<Rightarrow> string option \<Rightarrow> int \<Rightarrow> unit result" where
  "verify_records P key [] expected_previous_hash expected_sequence = Inr ()"
| "verify_records P key (r # rs) expected_previous_hash expected_sequence =
     (let n = int_str (au_sequence_number r)
      in if au_sequence_number r \<noteq> expected_sequence
         then Inl (AuditIntegrityError (''Unexpected audit sequence number '' @ n))
         else let computed_hash = sha256_hex P (entry_material r)
         in if au_previous_hash r \<noteq> expected_previous_hash
         then Inl (AuditIntegrityError (''Broken previous hash at sequence '' @ n))
         else bindR (compare_digest computed_hash (au_entry_hash r)) (\<lambda>same.
           if \<not> same then Inl (AuditIntegrityError (''Invalid hash at sequence '' @ n))
           else bindR (verify_signature P key (au_entry_hash r) (au_signature r)) (\<lambda>valid.
             if \<not> valid then Inl (AuditIntegrityError (''Invalid signature at sequence '' @ n))
             else verify_records P key rs (Some (au_entry_hash r)) (expected_sequence + 1))))"

definition verify_chain :: "platform \<Rightarrow> string \<Rightarrow> int op" where
  "verify_chain P key =
     bindE (execute (\<lambda>db. Inr (sort_key au_sequence_number (audit_logs db)))) (\<lambda>records.
     bindE (lift_result (verify_records P key records None 1)) (\<lambda>_. ret (int (length records))))"

definition audit_count :: "int op" where
  "audit_count = execute (\<lambda>db. Inr (int (length (audit_logs db))))"

subsection \<open>What verification accepts\<close>

text \<open>Digests are hexadecimal text.\<close>

definition hex_digests :: "platform \<Rightarrow> bool" where
  "hex_digests P \<longleftrightarrow> (\<forall>s. is_ascii (sha256_hex P s)) \<and> (\<forall>k s. is_ascii (hmac_sha256_hex P k s))"

text \<open>One entry in its place.\<close>

definition entry_ok :: "platform \<Rightarrow> string \<Rightarrow> int \<Rightarrow> string option \<Rightarrow> audit_log \<Rightarrow> bool" where
  "entry_ok P key n prev r \<longleftrightarrow> au_sequence_number r = n \<and> au_previous_hash r = prev
     \<and> au_entry_hash r = sha256_hex P (entry_material r)
     \<and> au_signature r = sign P key (au_entry_hash r)"

fun chain_ok :: "platform \<Rightarrow> string \<Rightarrow> audit_log list \<Rightarrow> string option \<Rightarrow> int \<Rightarrow> bool" where
  "chain_ok P key [] prev n = True"
| "chain_ok P key (r # rs) prev n \<longleftrightarrow> entry_ok P key n prev r
     \<and> chain_ok P key rs (Some (au_entry_hash r)) (n + 1)"

lemma check_Inr:
  "bindR m (\<lambda>b. if \<not> b then Inl e else x) = Inr y \<longleftrightarrow> m = Inr True \<and> x = Inr y"
  by (cases m) auto

lemma compare_digest_True: "is_ascii a \<Longrightarrow> compare_digest a b = Inr True \<longleftrightarrow> b = a"
  by (auto simp: compare_digest_def)

lemma verify_records_chain:
  assumes "hex_digests P"
  shows "verify_records P key rs prev n = Inr () \<longleftrightarrow> chain_ok P key rs prev n"
proof (induction rs arbitrary: prev n)
  case (Cons r rs)
  have "is_ascii (sha256_hex P s)" "is_ascii (sign P k s)" for k s
    using assms by (simp_all add: hex_digests_def sign_def)
  then show ?case
    using Cons
    by (auto simp: entry_ok_def verify_signature_def check_Inr compare_digest_True Let_def)
qed simp

lemma chain_ok_sequence:
  "chain_ok P key rs prev n \<Longrightarrow> k < length rs \<Longrightarrow> au_sequence_number (rs ! k) = n + int k"
proof (induction rs arbitrary: prev n k)
  case (Cons r rs)
  show ?case
  proof (cases k)
    case 0
    then show ?thesis using Cons.prems by (simp add: entry_ok_def)
  next
    case (Suc m)
    then show ?thesis using Cons.prems Cons.IH [of "Some (au_entry_hash r)" "n + 1" m] by simp
  qed
qed simp

lemma chain_ok_snoc:
  "chain_ok P key (rs @ [r]) prev n \<longleftrightarrow> chain_ok P key rs prev n
     \<and> entry_ok P key (n + int (length rs)) (if rs = [] then prev else Some (au_entry_hash (last rs))) r"
  by (induction rs arbitrary: prev n) (auto simp: algebra_simps)

lemma chain_ok_pointwise:
  "chain_ok P key rs None 1 \<longleftrightarrow> (\<forall>k < length rs. entry_ok P key (1 + int k)
     (if k = 0 then None else Some (au_entry_hash (rs ! (k - 1)))) (rs ! k))"
proof (induction rs rule: rev_induct)
  case (snoc r rs)
  have "(if rs = [] then None else Some (au_entry_hash (last rs)))
      = (if length rs = 0 then None else Some (au_entry_hash ((rs @ [r]) ! (length rs - 1))))"
    by (simp add: last_conv_nth nth_append)
  then show ?case
    using snoc by (auto simp: chain_ok_snoc less_Suc_eq nth_append split: if_splits)
qed simp

text \<open>Entries beyond the last are not missed: any beginning of a chain is a chain.\<close>

lemma chain_ok_prefix: "chain_ok P key (rs @ rs') prev n \<Longrightarrow> chain_ok P key rs prev n"
  by (induction rs arbitrary: prev n) auto

text \<open>The table, read in the order of the sequence numbers.\<close>

definition log_of :: "database \<Rightarrow> audit_log list" where
  "log_of db = sort_key au_sequence_number (audit_logs db)"

lemma sort_key_snoc:
  fixes f :: "'a \<Rightarrow> 'b::linorder"
  assumes "\<forall>y \<in> set xs. f y < f x"
  shows "sort_key f (xs @ [x]) = sort_key f xs @ [x]"
proof (rule properties_for_sort_key)
  fix k
  show "filter (\<lambda>y. f k = f y) (sort_key f xs @ [x]) = filter (\<lambda>y. f k = f y) (xs @ [x])"
    using sort_key_stable [where k = "f k" and f = f and xs = xs] by (simp add: eq_commute [of "f k"])
qed (use assms in \<open>auto simp: sorted_append intro: less_imp_le\<close>)

lemma length_log: "length (log_of db) = length (audit_logs db)"
  by (simp add: log_of_def)

lemma last_entry_Nil [simp]: "last_entry [] = None"
  by (simp add: last_entry_def)

lemma last_entry_log: "last_entry (audit_logs db) = (if log_of db = [] then None else Some (last (log_of db)))"
  by (simp add: last_entry_def log_of_def Let_def)

lemma verify_chain_run:
  assumes "hex_digests P" and "w_session_ok w"
  shows "verify_chain P key w = (Inr n, w') \<longleftrightarrow>
    chain_ok P key (log_of (w_db w)) None 1 \<and> n = int (length (audit_logs (w_db w))) \<and> w' = w"
  using assms verify_records_chain [of P key "log_of (w_db w)" None 1]
  by (cases "verify_records P key (log_of (w_db w)) None 1")
    (auto simp: verify_chain_def execute_bind lift_bind log_of_def [symmetric] ret_def,
     auto simp: log_of_def)

text \<open>What \<open>append\<close> did when it returned.\<close>

lemma append_Inr:
  assumes "append P key e a p w = (Inr r, w')"
  defines "q \<equiv> new_entry P key e a p (last_entry (audit_logs (w_db w)))
    (Datetime (w_clock w (w_ticks w)) True) (w_uuid w (w_uuids w))"
  shows "e \<noteq> [] \<and> length e \<le> 128 \<and> a \<noteq> [] \<and> length a \<le> 128 \<and> w_session_ok w"
    and "\<not> audit_clash q (w_db w)"
    and "w_db w' = (w_db w)\<lparr>audit_logs := audit_logs (w_db w) @ [stored_entry P q]\<rparr>"
    and "r = q" and "w_base w' = w_base w" and "w_session_ok w'"
  using assms
  by (auto simp: append_def execute_def bindE_def now_utc_def tick_def uuid4_def add_and_flush_def
      ret_def raise_def Let_def split: if_splits)

text \<open>\<open>append\<close> returns whenever the names are admissible and no unique column clashes.\<close>

definition next_entry :: "platform \<Rightarrow> string \<Rightarrow> string \<Rightarrow> string \<Rightarrow> json \<Rightarrow> world \<Rightarrow> audit_log" where
  "next_entry P key e a p w = new_entry P key e a p (last_entry (audit_logs (w_db w)))
     (Datetime (w_clock w (w_ticks w)) True) (w_uuid w (w_uuids w))"

lemma append_returns:
  assumes "e \<noteq> []" "length e \<le> 128" "a \<noteq> []" "length a \<le> 128" "w_session_ok w"
    and "\<not> audit_clash (next_entry P key e a p w) (w_db w)"
  shows "\<exists>w'. append P key e a p w = (Inr (next_entry P key e a p w), w')"
  using assms
  by (simp add: append_def execute_def bindE_def now_utc_def tick_def uuid4_def add_and_flush_def
      ret_def Let_def next_entry_def not_less)

text \<open>An exception out of \<open>append\<close> leaves the tables as they were.\<close>

lemma append_Inl:
  assumes "append P key e a p w = (Inl x, w')"
  shows "w_db w' = w_db w \<and> w_base w' = w_base w"
  using assms
  by (auto simp: append_def execute_def bindE_def now_utc_def tick_def uuid4_def add_and_flush_def
      ret_def raise_def Let_def split: if_splits)

text \<open>
  What the columns give back.  A column of type \<open>DateTime(timezone=True)\<close> of a database that knows zones
  (PostgreSQL) gives back a time with a zone; a \<open>JSONB\<close> column gives back a value without floats up to
  the order of its keys.  It may change a float: \<open>1e+16\<close> comes back as an integer.
\<close>

primrec exact_json :: "json \<Rightarrow> bool" where
  "exact_json JNull = True"
| "exact_json (JBool b) = True"
| "exact_json (JInt n) = True"
| "exact_json (JFloat s) = False"
| "exact_json (JStr s) = True"
| "exact_json (JArr vs) = list_all id (map exact_json vs)"
| "exact_json (JObj kvs) = (distinct (map fst kvs) \<and> list_all snd (map (map_prod id exact_json) kvs))"

definition zoned_columns :: "platform \<Rightarrow> bool" where
  "zoned_columns P \<longleftrightarrow> (\<forall>t. aware t \<longrightarrow> isoformat (stored_time P t) = isoformat t)
     \<and> (\<forall>j. exact_json j \<longrightarrow> json_norm (stored_json P j) = json_norm j)"

definition exact_entry :: "audit_log \<Rightarrow> bool" where
  "exact_entry r \<longleftrightarrow> exact_json (au_event_payload r)"

lemma material_stored:
  assumes "json_norm (stored_json P (au_event_payload r)) = json_norm (au_event_payload r)"
    and "isoformat (stored_time P (au_created_at r)) = isoformat (au_created_at r)"
  shows "entry_material (stored_entry P r) = entry_material r"
  using assms by (simp add: entry_material_def stored_entry_def canonical_render entry_json_def)

lemma chain_ok_less:
  assumes "chain_ok P key (log_of db) None 1" and "r \<in> set (audit_logs db)"
  shows "au_sequence_number r < 1 + int (length (audit_logs db))"
proof -
  have "r \<in> set (log_of db)" using assms(2) by (simp add: log_of_def)
  then obtain k where "k < length (log_of db)" and "log_of db ! k = r" by (auto simp: in_set_conv_nth)
  then show ?thesis using chain_ok_sequence [OF assms(1)] by (auto simp: log_of_def)
qed

lemma new_entry_fields:
  "new_entry P key e a p prev t i = \<lparr>au_id = i,
     au_sequence_number = (case prev of None \<Rightarrow> 1 | Some r \<Rightarrow> au_sequence_number r + 1),
     au_event_type = e, au_actor_id = a, au_event_payload = p,
     au_previous_hash = map_option au_entry_hash prev,
     au_entry_hash = sha256_hex P (entry_material (new_entry P key e a p prev t i)),
     au_signature = sign P key (sha256_hex P (entry_material (new_entry P key e a p prev t i))),
     au_created_at = t\<rparr>"
  by (simp add: new_entry_def entry_material_def Let_def)

lemma new_entry_sel [simp]:
  "au_id (new_entry P key e a p prev t i) = i"
  "au_event_type (new_entry P key e a p prev t i) = e"
  "au_actor_id (new_entry P key e a p prev t i) = a"
  "au_event_payload (new_entry P key e a p prev t i) = p"
  "au_previous_hash (new_entry P key e a p prev t i) = map_option au_entry_hash prev"
  "au_created_at (new_entry P key e a p prev t i) = t"
  "au_sequence_number (new_entry P key e a p prev t i)
     = (case prev of None \<Rightarrow> 1 | Some r \<Rightarrow> au_sequence_number r + 1)"
  by (simp_all add: new_entry_def Let_def)

lemma new_entry_hash:
  "au_entry_hash (new_entry P key e a p prev t i) = sha256_hex P (entry_material (new_entry P key e a p prev t i))"
  "au_signature (new_entry P key e a p prev t i) = sign P key (au_entry_hash (new_entry P key e a p prev t i))"
  by (simp_all add: new_entry_def entry_material_def Let_def)

lemma stored_entry_sel [simp]:
  "au_id (stored_entry P r) = au_id r" "au_sequence_number (stored_entry P r) = au_sequence_number r"
  "au_event_type (stored_entry P r) = au_event_type r" "au_actor_id (stored_entry P r) = au_actor_id r"
  "au_event_payload (stored_entry P r) = stored_json P (au_event_payload r)"
  "au_previous_hash (stored_entry P r) = au_previous_hash r"
  "au_entry_hash (stored_entry P r) = au_entry_hash r" "au_signature (stored_entry P r) = au_signature r"
  "au_created_at (stored_entry P r) = stored_time P (au_created_at r)"
  by (simp_all add: stored_entry_def)

text \<open>The next entry continues a chain: its number is one more than the length.\<close>

lemma next_sequence:
  assumes "chain_ok P key (log_of db) None 1"
  shows "au_sequence_number (new_entry P' key' e a p (last_entry (audit_logs db)) t i)
    = 1 + int (length (audit_logs db))"
proof (cases "log_of db = []")
  case True
  then have "audit_logs db = []" by (metis length_0_conv length_sort log_of_def)
  then show ?thesis using True by (simp add: last_entry_log)
next
  case False
  have "au_sequence_number (last (log_of db)) = 1 + int (length (log_of db) - 1)"
    using chain_ok_sequence [OF assms, of "length (log_of db) - 1"] False by (simp add: last_conv_nth)
  also have "\<dots> = int (length (audit_logs db))" using False length_log [of db] by (cases "log_of db") auto
  finally show ?thesis using False by (simp add: last_entry_log)
qed

text \<open>So only its identifier or its hash can be in the table already.\<close>

lemma chain_no_clash:
  assumes "chain_ok P key (log_of db) None 1"
    and "\<forall>q \<in> set (audit_logs db). au_id q \<noteq> i
      \<and> au_entry_hash q \<noteq> au_entry_hash (new_entry P' key' e a p (last_entry (audit_logs db)) t i)"
  shows "\<not> audit_clash (new_entry P' key' e a p (last_entry (audit_logs db)) t i) db"
  using assms(2) chain_ok_less [OF assms(1)] next_sequence [OF assms(1)]
  by (fastforce simp: audit_clash_def list_ex_iff)

lemma log_of_snoc:
  assumes "chain_ok P key (log_of db) None 1" and "au_sequence_number q = 1 + int (length (audit_logs db))"
  shows "log_of (db\<lparr>audit_logs := audit_logs db @ [q]\<rparr>) = log_of db @ [q]"
  using chain_ok_less [OF assms(1)] assms(2) by (simp add: log_of_def sort_key_snoc)

lemma chain_extends:
  assumes "chain_ok P key (log_of d) None 1"
  defines "r \<equiv> \<lambda>e a p t i. new_entry P key e a p (last_entry (audit_logs d)) t i"
  assumes mat: "entry_material (stored_entry P (r e a p t i)) = entry_material (r e a p t i)"
  shows "log_of (d\<lparr>audit_logs := audit_logs d @ [stored_entry P (r e a p t i)]\<rparr>) = log_of d @ [stored_entry P (r e a p t i)]"
    and "chain_ok P key (log_of (d\<lparr>audit_logs := audit_logs d @ [stored_entry P (r e a p t i)]\<rparr>)) None 1"
proof -
  let ?r = "r e a p t i"
  have seq: "au_sequence_number ?r = 1 + int (length (audit_logs d))"
    unfolding r_def by (rule next_sequence [OF assms(1)])
  then show log: "log_of (d\<lparr>audit_logs := audit_logs d @ [stored_entry P ?r]\<rparr>) = log_of d @ [stored_entry P ?r]"
    by (intro log_of_snoc [OF assms(1)]) simp
  have hash: "au_entry_hash ?r = sha256_hex P (entry_material ?r)" "au_signature ?r = sign P key (au_entry_hash ?r)"
    unfolding r_def by (rule new_entry_hash)+
  have prev: "au_previous_hash ?r = (if log_of d = [] then None else Some (au_entry_hash (last (log_of d))))"
    unfolding r_def by (simp add: last_entry_log)
  show "chain_ok P key (log_of (d\<lparr>audit_logs := audit_logs d @ [stored_entry P ?r]\<rparr>)) None 1"
    unfolding log chain_ok_snoc using assms(1)
    by (simp add: entry_ok_def mat hash [symmetric] prev seq length_log)
qed

lemma material_zoned:
  "zoned_columns P \<Longrightarrow> aware (au_created_at r) \<Longrightarrow> exact_entry r \<Longrightarrow> entry_material (stored_entry P r) = entry_material r"
  by (intro material_stored) (simp_all add: zoned_columns_def exact_entry_def)

lemma append_chain:
  assumes "chain_ok P key (log_of (w_db w)) None 1" and "append P key e a p w = (Inr r, w')"
    and "zoned_columns P" and "exact_json p"
  shows "log_of (w_db w') = log_of (w_db w) @ [stored_entry P r]"
    and "chain_ok P key (log_of (w_db w')) None 1"
proof -
  have r: "r = new_entry P key e a p (last_entry (audit_logs (w_db w))) (Datetime (w_clock w (w_ticks w)) True) (w_uuid w (w_uuids w))"
    using append_Inr(4) [OF assms(2)] .
  then have "entry_material (stored_entry P r) = entry_material r"
    using assms(4) by (intro material_zoned [OF assms(3)]) (simp_all add: exact_entry_def)
  then show "log_of (w_db w') = log_of (w_db w) @ [stored_entry P r]" and "chain_ok P key (log_of (w_db w')) None 1"
    using append_Inr(3) [OF assms(2)] chain_extends [OF assms(1), of e a p "Datetime (w_clock w (w_ticks w)) True" "w_uuid w (w_uuids w)"]
    by (simp_all add: r [symmetric])
qed

subsection \<open>What was written\<close>

text \<open>
  A table that came about by appends only: its rows are what the columns made of entries that were
  linked, hashed and signed one after the other.  This needs nothing of the columns.
\<close>

definition logged :: "platform \<Rightarrow> string \<Rightarrow> audit_log list \<Rightarrow> audit_log list \<Rightarrow> bool" where
  "logged P key rs rows \<longleftrightarrow> rows = map (stored_entry P) rs \<and> chain_ok P key rs None 1
     \<and> (\<forall>r \<in> set rs. aware (au_created_at r))"

lemma logged_Nil [simp]: "logged P key [] []"
  by (simp add: logged_def)

lemma logged_sorted:
  assumes "logged P key rs rows"
  shows "sort_key au_sequence_number rows = rows"
proof -
  have c: "chain_ok P key rs None 1" and rows: "rows = map (stored_entry P) rs"
    using assms by (simp_all add: logged_def)
  have "sorted (map au_sequence_number rs)"
    by (rule sorted_iff_nth_mono [THEN iffD2]) (simp add: chain_ok_sequence [OF c])
  then show ?thesis unfolding rows by (intro sort_key_id_if_sorted) (simp add: comp_def)
qed

lemma logged_next:
  assumes "logged P key rs rows" and "aware t"
  shows "\<exists>q. logged P key (rs @ [q]) (rows @ [stored_entry P (new_entry P key e a p (last_entry rows) t i)])"
proof -
  have c: "chain_ok P key rs None 1" and rows: "rows = map (stored_entry P) rs"
    using assms(1) by (simp_all add: logged_def)
  let ?q = "new_entry P key e a p (last_entry rows) t i"
  have last: "last_entry rows = (if rs = [] then None else Some (stored_entry P (last rs)))"
    using logged_sorted [OF assms(1)] by (simp add: last_entry_def Let_def rows last_map)
  have "au_sequence_number (last rs) = int (length rs)" if "rs \<noteq> []"
    using chain_ok_sequence [OF c, of "length rs - 1"] that by (cases rs) (auto simp: last_conv_nth)
  then have seq: "au_sequence_number ?q = 1 + int (length rs)"
    and prev: "au_previous_hash ?q = (if rs = [] then None else Some (au_entry_hash (last rs)))"
    by (simp_all add: last)
  have "entry_ok P key (1 + int (length rs)) (if rs = [] then None else Some (au_entry_hash (last rs))) ?q"
    unfolding entry_ok_def seq prev by (simp add: new_entry_hash)
  then have "logged P key (rs @ [?q]) (rows @ [stored_entry P ?q])"
    using assms by (simp add: logged_def chain_ok_snoc)
  then show ?thesis by blast
qed

text \<open>Where the columns give back what was written, the rows verify.\<close>

lemma logged_chain:
  assumes "logged P key rs rows" and "zoned_columns P" and "\<forall>r \<in> set rs. exact_entry r"
  shows "chain_ok P key rows None 1"
proof -
  have stored: "entry_ok P key n prev (stored_entry P r)" if "entry_ok P key n prev r" "r \<in> set rs" for n prev r
    using that material_zoned [OF assms(2), of r] assms(1,3) by (simp add: entry_ok_def logged_def)
  have "chain_ok P key (map (stored_entry P) qs) prev n" if "chain_ok P key qs prev n" "set qs \<subseteq> set rs" for qs prev n
    using that by (induction qs arbitrary: prev n) (auto intro: stored)
  then show ?thesis using assms(1) by (simp add: logged_def)
qed

lemma logged_verifies:
  assumes "logged P key rs (audit_logs (w_db w))" and "zoned_columns P" and "\<forall>r \<in> set rs. exact_entry r"
    and "hex_digests P" and "w_session_ok w"
  shows "verify_chain P key w = (Inr (int (length (audit_logs (w_db w)))), w)"
  using logged_chain [OF assms(1-3)] logged_sorted [OF assms(1)]
  by (simp add: verify_chain_run [OF assms(4,5)] log_of_def)

lemma base_append: "obeys same_base (append P key e a p)"
  unfolding append_def Let_def by (intro base_store)

text \<open>For a relation on databases that allows one more audit entry, \<open>append\<close> is a step along it.\<close>

context database_relation begin

lemma obeys_append:
  assumes "\<And>d e a p t i. \<lbrakk>e \<noteq> []; length e \<le> 128; a \<noteq> []; length a \<le> 128; aware t;
      \<not> audit_clash (new_entry P key e a p (last_entry (audit_logs d)) t i) d\<rbrakk>
    \<Longrightarrow> Q d (d\<lparr>audit_logs := audit_logs d @ [stored_entry P (new_entry P key e a p (last_entry (audit_logs d)) t i)]\<rparr>)"
  shows "obeys inner (append P key e a p)"
  unfolding obeys_def inner_def
proof
  fix w
  obtain r w' where run: "append P key e a p w = (r, w')" by fastforce
  show "Q (w_db w) (w_db (snd (append P key e a p w))) \<and> Q (w_base w) (w_base (snd (append P key e a p w)))"
  proof (cases r)
    case (Inl x)
    then show ?thesis using append_Inl run Q_refl by auto
  next
    case (Inr q)
    note a = append_Inr [OF run [unfolded Inr]]
    show ?thesis unfolding run snd_conv a(3,5) using assms a(1,2) Q_refl by simp
  qed
qed

end

subsection \<open>Hash chains\<close>

text \<open>
  The argument that the last hash fixes the whole log, for any chain whose entries carry the
  digest of a content that determines the link to the entry before.
\<close>

locale hash_chain =
  fixes digest :: "'m \<Rightarrow> 'h" and material :: "'r \<Rightarrow> 'm" and link :: "'r \<Rightarrow> 'h option"
    and hash :: "'r \<Rightarrow> 'h" and valid :: "'r list \<Rightarrow> bool"
  assumes valid_init: "valid (rs @ [r]) \<Longrightarrow> valid rs"
    and valid_hash: "valid (rs @ [r]) \<Longrightarrow> hash r = digest (material r)"
    and valid_link: "valid (rs @ [r]) \<Longrightarrow> link r = (if rs = [] then None else Some (hash (last rs)))"
    and material_link: "valid (rs @ [r]) \<Longrightarrow> valid (rs' @ [r']) \<Longrightarrow> material r = material r' \<Longrightarrow> link r = link r'"
begin

lemma last_hash_fixes_all:
  assumes "valid rs" and "valid rs'" and "length rs = length rs'"
    and "rs \<noteq> [] \<Longrightarrow> hash (last rs) = hash (last rs')"
    and "inj_on digest (material ` (set rs \<union> set rs'))"
  shows "map material rs = map material rs'"
  using assms
proof (induction rs arbitrary: rs' rule: rev_induct)
  case (snoc r rs)
  from snoc.prems(3) obtain qs q where rs': "rs' = qs @ [q]" and len: "length rs = length qs"
    by (cases rs' rule: rev_cases) auto
  note valid = snoc.prems(1) snoc.prems(2) [unfolded rs']
  from snoc.prems(4) have "digest (material r) = digest (material q)"
    unfolding rs' using valid_hash [OF valid(1)] valid_hash [OF valid(2)] by simp
  then have m: "material r = material q"
    by (rule inj_onD [OF snoc.prems(5)]) (auto simp: rs')
  then have "link r = link q" by (rule material_link [OF valid])
  then have "rs \<noteq> [] \<Longrightarrow> hash (last rs) = hash (last qs)"
    using valid_link [OF valid(1)] valid_link [OF valid(2)] len by (auto split: if_splits)
  moreover have "inj_on digest (material ` (set rs \<union> set qs))"
    by (rule inj_on_subset [OF snoc.prems(5)]) (auto simp: rs')
  ultimately have "map material rs = map material qs"
    using snoc.IH [of qs] valid valid_init len by blast
  with m show ?case by (simp add: rs')
qed simp

end

text \<open>The audit log is such a chain, for well-formed payloads; the key does not matter.\<close>

definition audit_valid :: "platform \<Rightarrow> audit_log list \<Rightarrow> bool" where
  "audit_valid P rs \<longleftrightarrow> (\<exists>key. chain_ok P key rs None 1) \<and> (\<forall>r \<in> set rs. json_ok (au_event_payload r))"

text \<open>Two entries with the same content.\<close>

definition same_entry :: "audit_log \<Rightarrow> audit_log \<Rightarrow> bool" where
  "same_entry r q \<longleftrightarrow> au_sequence_number r = au_sequence_number q \<and> au_event_type r = au_event_type q
     \<and> au_actor_id r = au_actor_id q \<and> json_norm (au_event_payload r) = json_norm (au_event_payload q)
     \<and> au_previous_hash r = au_previous_hash q \<and> isoformat (au_created_at r) = isoformat (au_created_at q)"

lemma entry_json_ok:
  "json_ok (au_event_payload r) \<Longrightarrow> json_ok (entry_json (au_sequence_number r) (au_event_type r)
     (au_actor_id r) (au_event_payload r) (au_previous_hash r) (au_created_at r))"
  by (simp add: entry_json_def opt_json_def split: option.split)

lemma opt_JStr_inj: "json_norm (opt_json JStr a) = json_norm (opt_json JStr b) \<longleftrightarrow> a = b"
  by (simp add: opt_json_def split: option.split)

lemma sort_key_set_eq: "sort_key f xs = sort_key f ys \<Longrightarrow> set xs = set ys"
  by (metis set_sort)

lemma entry_json_norm_inj:
  assumes "json_norm (entry_json n e a p h t) = json_norm (entry_json n' e' a' p' h' t')"
  shows "n = n' \<and> e = e' \<and> a = a' \<and> json_norm p = json_norm p' \<and> h = h' \<and> isoformat t = isoformat t'"
proof -
  let ?l = "\<lambda>n e a p h t. [(''sequence_number'', JInt n), (''event_type'', JStr e), (''actor_id'', JStr a),
    (''event_payload'', p), (''previous_hash'', opt_json JStr h), (''created_at'', JStr (isoformat t))]"
  let ?n = "map (map_prod id json_norm)"
  from assms have "sort_key fst (?n (?l n e a p h t)) = sort_key fst (?n (?l n' e' a' p' h' t'))"
    by (simp only: entry_json_def json_norm.simps json.inject)
  then have "set (?n (?l n e a p h t)) = set (?n (?l n' e' a' p' h' t'))"
    by (rule sort_key_set_eq)
  then have s: "x \<in> set (?n (?l n e a p h t)) \<longleftrightarrow> x \<in> set (?n (?l n' e' a' p' h' t'))" for x by (simp only:)
  have "n = n'" using s [of "(''sequence_number'', JInt n)"] by simp
  moreover have "e = e'" using s [of "(''event_type'', JStr e)"] by simp
  moreover have "a = a'" using s [of "(''actor_id'', JStr a)"] by simp
  moreover have "json_norm p = json_norm p'" using s [of "(''event_payload'', json_norm p)"] by simp
  moreover have "h = h'"
    using s [of "(''previous_hash'', json_norm (opt_json JStr h))"] by (simp add: opt_JStr_inj)
  moreover have "isoformat t = isoformat t'" using s [of "(''created_at'', JStr (isoformat t))"] by simp
  ultimately show ?thesis by simp
qed

lemma entry_material_eq:
  assumes "json_ok (au_event_payload r)" and "json_ok (au_event_payload q)"
    and "entry_material r = entry_material q"
  shows "same_entry r q"
proof -
  from assms(3) have "json_norm (entry_json (au_sequence_number r) (au_event_type r) (au_actor_id r)
      (au_event_payload r) (au_previous_hash r) (au_created_at r)) =
    json_norm (entry_json (au_sequence_number q) (au_event_type q) (au_actor_id q)
      (au_event_payload q) (au_previous_hash q) (au_created_at q))"
    unfolding entry_material_def
    by (simp only: canonical_json_eq_iff [OF entry_json_ok [OF assms(1)] entry_json_ok [OF assms(2)]])
  from entry_json_norm_inj [OF this] show ?thesis by (simp add: same_entry_def)
qed

interpretation audit_chain: hash_chain "sha256_hex P" entry_material au_previous_hash au_entry_hash "audit_valid P"
  for P
proof
  fix rs rs' :: "audit_log list" and r r'
  show "audit_valid P (rs @ [r]) \<Longrightarrow> audit_valid P rs"
    by (auto simp: audit_valid_def chain_ok_snoc)
  show "audit_valid P (rs @ [r]) \<Longrightarrow> au_entry_hash r = sha256_hex P (entry_material r)"
    by (auto simp: audit_valid_def chain_ok_snoc entry_ok_def)
  show "audit_valid P (rs @ [r]) \<Longrightarrow>
      au_previous_hash r = (if rs = [] then None else Some (au_entry_hash (last rs)))"
    by (auto simp: audit_valid_def chain_ok_snoc entry_ok_def)
  show "au_previous_hash r = au_previous_hash r'"
    if "audit_valid P (rs @ [r])" "audit_valid P (rs' @ [r'])" "entry_material r = entry_material r'"
    using that entry_material_eq [of r r'] by (auto simp: audit_valid_def same_entry_def)
qed

text \<open>Logs that agree in length and last hash, under possibly different keys.\<close>

lemma verify_session: "verify_chain P key w = (Inr n, w') \<Longrightarrow> w_session_ok w"
  by (simp add: verify_chain_def execute_bind split: if_splits)

lemma chain_ok_hash:
  "chain_ok P key rs prev n \<Longrightarrow> r \<in> set rs \<Longrightarrow> au_entry_hash r = sha256_hex P (entry_material r)"
  by (induction rs arbitrary: prev n) (auto simp: entry_ok_def)

lemma verify_chain_raises:
  assumes "hex_digests P" and "w_session_ok w" and "\<not> chain_ok P key (log_of (w_db w)) None 1"
  shows "\<exists>x. verify_chain P key w = (Inl x, w)"
proof -
  have "verify_records P key (log_of (w_db w)) None 1 \<noteq> Inr ()"
    using assms(3) verify_records_chain [OF assms(1)] by blast
  then obtain x where "verify_records P key (log_of (w_db w)) None 1 = Inl x"
    by (cases "verify_records P key (log_of (w_db w)) None 1") auto
  then show ?thesis using assms(2) by (simp add: verify_chain_def execute_bind lift_bind log_of_def)
qed

lemma audit_logs_fixed:
  assumes "hex_digests P" and w: "verify_chain P key w = (Inr n, w)" and v: "verify_chain P key' v = (Inr n, v)"
    and last: "map_option au_entry_hash (last_entry (audit_logs (w_db w)))
       = map_option au_entry_hash (last_entry (audit_logs (w_db v)))"
    and ok: "\<forall>r \<in> set (audit_logs (w_db w)) \<union> set (audit_logs (w_db v)). json_ok (au_event_payload r)"
    and inj: "inj_on (sha256_hex P) (entry_material ` (set (audit_logs (w_db w)) \<union> set (audit_logs (w_db v))))"
  shows "list_all2 same_entry (log_of (w_db w)) (log_of (w_db v))"
proof -
  let ?l = "log_of (w_db w)" and ?m = "log_of (w_db v)"
  have "chain_ok P key ?l None 1" and "chain_ok P key' ?m None 1" and len: "length ?l = length ?m"
    using w v verify_session [OF w] verify_session [OF v] by (simp_all add: verify_chain_run [OF assms(1)] length_log)
  moreover have set: "set ?l = set (audit_logs (w_db w))" "set ?m = set (audit_logs (w_db v))"
    by (simp_all add: log_of_def)
  ultimately have valid: "audit_valid P ?l" "audit_valid P ?m" using ok by (auto simp: audit_valid_def)
  have "map entry_material ?l = map entry_material ?m"
    using audit_chain.last_hash_fixes_all [OF valid len] last len inj
    by (auto simp: set last_entry_log split: if_splits)
  then have mat: "entry_material (?l ! k) = entry_material (?m ! k)" if "k < length ?l" for k
    using that len by (metis nth_map)
  show ?thesis
  proof (rule list_all2_all_nthI [OF len])
    fix k
    assume k: "k < length ?l"
    then have "?l ! k \<in> set (audit_logs (w_db w))" and "?m ! k \<in> set (audit_logs (w_db v))"
      using nth_mem len by (metis set)+
    then show "same_entry (?l ! k) (?m ! k)" using ok mat [OF k] by (intro entry_material_eq) auto
  qed
qed

subsection \<open>Properties\<close>

lemma hex_text_ascii: "is_ascii (hex_text s)"
proof -
  have "code (hex_digit d) < 128" if "d < 16" for d using that by (simp add: hex_digit_def)
  then have "list_all (\<lambda>c. code c < 128) (hex2 (code c))" for c
    by (auto simp: hex2_def less_mult_imp_div_less)
  then show ?thesis by (simp add: is_ascii_def hex_text_def list_all_iff)
qed

lemma hex_text_inj: "hex_text s = hex_text t \<Longrightarrow> s = t"
proof (induction s arbitrary: t)
  case Nil
  then show ?case by (cases t) (simp_all add: hex_text_def hex2_def)
next
  case (Cons c s)
  then obtain d u where t: "t = d # u" by (cases t) (simp_all add: hex_text_def hex2_def)
  from Cons.prems have "hex2 (code c) = hex2 (code d)" and "hex_text s = hex_text u"
    unfolding t by (simp_all add: hex_text_def hex2_def)
  then show ?case using Cons.IH hex2_inj [of "code c" "code d"] by (simp add: t)
qed

lemma sample_platform_ok: "hex_digests sample_platform" "zoned_columns sample_platform"
  "hex_digests naive_platform"
  by (simp_all add: hex_digests_def zoned_columns_def sample_platform_def naive_platform_def hex_text_ascii)

lemma sample_logged: "logged sample_platform key rs rows \<Longrightarrow> rs = rows"
proof -
  have "stored_entry sample_platform = id" by (rule ext) (simp add: stored_entry_def sample_platform_def)
  then show "logged sample_platform key rs rows \<Longrightarrow> rs = rows" by (simp add: logged_def)
qed

definition sample_event :: "audit_log op" where
  "sample_event = append sample_platform sample_key ''agent_registered'' ''alice'' (JObj [(''agent_id'', JStr ''agent-1'')])"

lemma sample_event_run: "\<exists>r w'. sample_event sample_world = (Inr r, w')"
proof -
  have "\<exists>w'. sample_event sample_world = (Inr (next_entry sample_platform sample_key ''agent_registered'' ''alice''
      (JObj [(''agent_id'', JStr ''agent-1'')]) sample_world), w')"
    unfolding sample_event_def
    by (rule append_returns) (simp_all add: sample_world_def sample_database_def audit_clash_def)
  then show ?thesis by blast
qed

text \<open>
  C16: Verification returns, with the number of entries, exactly on a log whose \<open>k\<close>-th entry has
  the sequence number \<open>k + 1\<close>, links to the hash of the entry before (the first one to none),
  has the hash of its own content and the signature of that hash.
\<close>

theorem verify_chain_iff:
  assumes "hex_digests P" and "w_session_ok w"
  shows "verify_chain P key w = (Inr n, w') \<longleftrightarrow> w' = w \<and> n = int (length (audit_logs (w_db w)))
    \<and> (\<forall>k < length (log_of (w_db w)). let r = log_of (w_db w) ! k
         in au_sequence_number r = 1 + int k
          \<and> au_previous_hash r = (if k = 0 then None else Some (au_entry_hash (log_of (w_db w) ! (k - 1))))
          \<and> au_entry_hash r = sha256_hex P (entry_material r)
          \<and> au_signature r = sign P key (au_entry_hash r))"
  using verify_chain_run [OF assms] chain_ok_pointwise [of P key "log_of (w_db w)"]
  by (auto simp: entry_ok_def Let_def)

lemma verify_chain_iff_witness: "verify_chain sample_platform sample_key sample_world = (Inr 0, sample_world)"
  by (subst verify_chain_iff) (simp_all add: sample_platform_ok sample_world_def sample_database_def log_of_def)

text \<open>
  On a log that verifies, a call of append that returns keeps it verifying, with one entry
  more, provided the columns give back the entry.
\<close>

theorem append_extends_chain:
  assumes "hex_digests P" and "zoned_columns P" and "verify_chain P key w = (Inr n, v)"
    and "append P key e a p w = (Inr r, w')" and "exact_json p"
  shows "verify_chain P key w' = (Inr (n + 1), w')
    \<and> audit_logs (w_db w') = audit_logs (w_db w) @ [stored_entry P r]"
proof -
  note a = append_Inr [OF assms(4)]
  have "chain_ok P key (log_of (w_db w)) None 1" and n: "n = int (length (audit_logs (w_db w)))"
    using assms(3) a(1) by (simp_all add: verify_chain_run [OF assms(1)])
  then have "chain_ok P key (log_of (w_db w')) None 1"
    using append_chain(2) assms(2,4,5) by blast
  then show ?thesis using a(3,4,6) n by (simp add: verify_chain_run [OF assms(1)])
qed

lemma append_extends_chain_witness:
  "\<exists>w'. snd (sample_event sample_world) = w' \<and> verify_chain sample_platform sample_key w' = (Inr 1, w')"
proof -
  obtain r w' where run: "sample_event sample_world = (Inr r, w')" using sample_event_run by blast
  have "verify_chain sample_platform sample_key sample_world = (Inr 0, sample_world)"
    by (simp add: verify_chain_run sample_platform_ok sample_world_def sample_database_def log_of_def)
  from append_extends_chain [OF sample_platform_ok(1,2) this run [unfolded sample_event_def]]
  show ?thesis using run by simp
qed

text \<open>
  C11: Tampering shows: two logs that verify (under any keys), have the same length and end in
  the same hash record the same events, actors, payloads, links and times, entry by entry,
  unless two of their contents collide under SHA-256.
\<close>

theorem audit_tamper_evident:
  assumes "hex_digests P" and "verify_chain P key w = (Inr n, w)" and "verify_chain P key' v = (Inr n, v)"
    and "map_option au_entry_hash (last_entry (audit_logs (w_db w)))
       = map_option au_entry_hash (last_entry (audit_logs (w_db v)))"
    and "\<forall>r \<in> set (audit_logs (w_db w)) \<union> set (audit_logs (w_db v)). json_ok (au_event_payload r)"
    and "inj_on (sha256_hex P) (entry_material ` (set (audit_logs (w_db w)) \<union> set (audit_logs (w_db v))))"
  shows "list_all2 same_entry (log_of (w_db w)) (log_of (w_db v))"
  using assms audit_logs_fixed by blast

text \<open>Two platforms' logs of one event each.\<close>

lemma audit_tamper_evident_witness:
  "\<exists>w'. snd (sample_event sample_world) = w' \<and> length (log_of (w_db w')) = 1
     \<and> list_all2 same_entry (log_of (w_db w')) (log_of (w_db w'))"
proof -
  obtain r w' where run: "sample_event sample_world = (Inr r, w')" using sample_event_run by blast
  have sample: "chain_ok sample_platform sample_key (log_of (w_db sample_world)) None 1"
    "audit_logs (w_db sample_world) = []"
    by (simp_all add: sample_world_def sample_database_def log_of_def)
  note a = append_Inr [OF run [unfolded sample_event_def]]
  have logs: "audit_logs (w_db w') = [stored_entry sample_platform r]" using a(3,4) sample(2) by simp
  have ver: "verify_chain sample_platform sample_key w' = (Inr 1, w')"
    using append_chain(2) [OF sample(1) run [unfolded sample_event_def] sample_platform_ok(2)] a(6) logs
    by (simp add: verify_chain_run sample_platform_ok)
  have "json_ok (au_event_payload (stored_entry sample_platform r))"
    by (simp add: a(4) sample_platform_def)
  then show ?thesis
    using audit_tamper_evident [OF sample_platform_ok(1) ver ver] logs run
    by (auto simp: length_log)
qed

text \<open>
  C17: On a log that verifies, append returns for every event type and actor of 1 to 128
  characters, unless the new identifier or the new hash is already in the table: the sequence
  number it computes never clashes.
\<close>

theorem append_succeeds:
  assumes "hex_digests P" and "verify_chain P key w = (Inr n, v)"
    and "0 < length e" "length e \<le> 128" "0 < length a" "length a \<le> 128"
    and "\<forall>q \<in> set (audit_logs (w_db w)). au_id q \<noteq> w_uuid w (w_uuids w)
      \<and> au_entry_hash q \<noteq> au_entry_hash (next_entry P key e a p w)"
  shows "\<exists>w'. append P key e a p w = (Inr (next_entry P key e a p w), w')"
proof -
  have ok: "w_session_ok w" using verify_session assms(2) .
  then have chain: "chain_ok P key (log_of (w_db w)) None 1"
    using assms(2) by (simp add: verify_chain_run [OF assms(1)])
  have "\<not> audit_clash (next_entry P key e a p w) (w_db w)"
    using assms(7) unfolding next_entry_def by (intro chain_no_clash [OF chain]) auto
  then show ?thesis using assms(3-6) ok by (intro append_returns) auto
qed

lemma append_succeeds_witness:
  "\<exists>w'. append sample_platform sample_key ''agent_registered'' ''alice'' JNull sample_world
     = (Inr (next_entry sample_platform sample_key ''agent_registered'' ''alice'' JNull sample_world), w')"
  using append_succeeds [of sample_platform sample_key sample_world 0 sample_world "''agent_registered''" "''alice''" JNull]
  by (simp add: sample_platform_ok verify_chain_run sample_world_def sample_database_def log_of_def)

text \<open>
  C38: A store that drops the time zone breaks the log: after an append that returned,
  verification raises, unless the hash does not tell the two renderings of the time apart.
\<close>

theorem naive_times_break_chain:
  assumes "hex_digests P" and "\<forall>t. \<not> aware (stored_time P t)" and "append P key e a p w = (Inr r, w')"
    and "json_ok p" and "json_ok (stored_json P p)"
    and "inj_on (sha256_hex P) {entry_material r, entry_material (stored_entry P r)}"
  shows "\<exists>x. verify_chain P key w' = (Inl x, w')"
proof -
  note a = append_Inr [OF assms(3)]
  let ?s = "stored_entry P r"
  have r: "au_entry_hash r = sha256_hex P (entry_material r)" "au_event_payload r = p" "aware (au_created_at r)"
    unfolding a(4) by (simp_all add: new_entry_hash)
  have "\<not> chain_ok P key (log_of (w_db w')) None 1"
  proof
    assume chain: "chain_ok P key (log_of (w_db w')) None 1"
    have "?s \<in> set (log_of (w_db w'))" using a(3,4) by (simp add: log_of_def)
    then have "au_entry_hash ?s = sha256_hex P (entry_material ?s)" by (rule chain_ok_hash [OF chain])
    then have "entry_material r = entry_material ?s"
      using inj_onD [OF assms(6), of "entry_material r" "entry_material ?s"] r(1) by simp
    then have "same_entry r ?s" using r(2) assms(4,5) by (intro entry_material_eq) simp_all
    then have "isoformat (au_created_at r) = isoformat (stored_time P (au_created_at r))"
      by (simp add: same_entry_def)
    then show False using isoformat_aware r(3) assms(2) by metis
  qed
  then show ?thesis by (rule verify_chain_raises [OF assms(1) a(6)])
qed

lemma naive_times_break_chain_witness:
  "\<exists>r w' x. append naive_platform sample_key ''agent_registered'' ''alice'' JNull sample_world = (Inr r, w')
     \<and> verify_chain naive_platform sample_key w' = (Inl x, w')"
proof -
  let ?a = "append naive_platform sample_key ''agent_registered'' ''alice'' JNull"
  obtain r w' where run: "?a sample_world = (Inr r, w')"
    using append_returns [of "''agent_registered''" "''alice''" sample_world naive_platform sample_key JNull]
    by (auto simp: sample_world_def sample_database_def audit_clash_def)
  have "sha256_hex naive_platform = hex_text" by (simp add: naive_platform_def sample_platform_def)
  then have inj: "inj_on (sha256_hex naive_platform) A" for A using hex_text_inj by (auto intro: inj_onI)
  have "\<exists>x. verify_chain naive_platform sample_key w' = (Inl x, w')"
    by (rule naive_times_break_chain [OF sample_platform_ok(3) _ run _ _ inj])
      (simp_all add: naive_platform_def sample_platform_def)
  with run show ?thesis by blast
qed

text \<open>
  Removing the newest entries does not show: the first entries of a log that verifies
  verify too, with the smaller count.
\<close>

theorem truncation_verifies:
  assumes "hex_digests P" and "verify_chain P key w = (Inr n, w)"
    and "w_session_ok v" and "log_of (w_db v) = take m (log_of (w_db w))"
  shows "verify_chain P key v = (Inr (min (int m) n), v)"
proof -
  have ok: "w_session_ok w" using verify_session assms(2) .
  then have "chain_ok P key (log_of (w_db w)) None 1" and n: "n = int (length (audit_logs (w_db w)))"
    using assms(2) by (simp_all add: verify_chain_run [OF assms(1)])
  then have "chain_ok P key (log_of (w_db v)) None 1"
    using chain_ok_prefix [of P key "take m (log_of (w_db w))" "drop m (log_of (w_db w))"] assms(4) by simp
  moreover have "int (length (audit_logs (w_db v))) = min (int m) n"
    using assms(4) n by (simp add: length_log [symmetric] min_def)
  ultimately show ?thesis using assms(3) by (simp add: verify_chain_run [OF assms(1)])
qed

lemma truncation_verifies_witness:
  "\<exists>w'. snd (sample_event sample_world) = w' \<and> length (log_of (w_db w')) = 1
     \<and> verify_chain sample_platform sample_key sample_world = (Inr 0, sample_world)"
proof -
  obtain r w' where run: "sample_event sample_world = (Inr r, w')" using sample_event_run by blast
  have sample: "chain_ok sample_platform sample_key (log_of (w_db sample_world)) None 1"
    "audit_logs (w_db sample_world) = []" "w_session_ok sample_world"
    by (simp_all add: sample_world_def sample_database_def log_of_def)
  note a = append_Inr [OF run [unfolded sample_event_def]]
  have logs: "audit_logs (w_db w') = [stored_entry sample_platform r]" using a(3,4) sample(2) by simp
  have ver: "verify_chain sample_platform sample_key w' = (Inr 1, w')"
    using append_chain(2) [OF sample(1) run [unfolded sample_event_def] sample_platform_ok(2)] a(6) logs
    by (simp add: verify_chain_run sample_platform_ok)
  have "verify_chain sample_platform sample_key sample_world = (Inr 0, sample_world)"
    using truncation_verifies [OF sample_platform_ok(1) ver sample(3), of 0] sample(2)
    by (simp add: log_of_def)
  then show ?thesis using run logs by (auto simp: length_log)
qed

end
