(* ===== verification/Interceptor.thy ===== *)
theory Interceptor
  imports Policy_Engine Audit_Trail Service_Config
begin

text \<open>
  \<open>AgentInterceptor\<close> of \<open>marcel/core/interceptor.py\<close>: evaluate an intent, wait for a human
  where the decision asks for one, run the tool, and settle the budget and the audit log.

  Other tasks and processes run while the interceptor is suspended.  What they do is part of
  the run: a \<open>schedule\<close> says what other sessions committed between the lookup and the insert of
  an approval request, and what happened at each turn of the polling loop.
\<close>

subsection \<open>Schedules\<close>

text \<open>
  One turn of the loop: the reading of the event loop's clock (microseconds) at its start,
  what others did while the task waited for a message, and whether a message came.
\<close>

record poll =
  pl_time :: int
  pl_others :: "world \<Rightarrow> world"
  pl_message :: bool

text \<open>
  \<open>sc_race\<close>: what others commit between select and flush; \<open>sc_start\<close>: the clock of the event
  loop when the wait begins; \<open>sc_polls\<close>: the turns of the loop the run lets happen.
\<close>

record schedule =
  sc_race :: "database \<Rightarrow> database"
  sc_start :: int
  sc_polls :: "poll list"

definition others_run :: "(world \<Rightarrow> world) \<Rightarrow> unit op" where
  "others_run f = modify_s f"

text \<open>What every method has at hand: the platform, the audit key and the settings.\<close>

record service =
  sv_platform :: platform
  sv_settings :: settings

abbreviation audit_append :: "service \<Rightarrow> string \<Rightarrow> string \<Rightarrow> json \<Rightarrow> audit_log op" where
  "audit_append S \<equiv> append (sv_platform S) (audit_hmac_key (sv_settings S))"

subsection \<open>Approval requests\<close>

definition find_by_key :: "string \<Rightarrow> database \<Rightarrow> hitl_transaction option result" where
  "find_by_key k db = find_row (\<lambda>t. hi_idempotency_key t = k) (hitl_transactions db)"

definition find_by_id :: "string \<Rightarrow> database \<Rightarrow> hitl_transaction option result" where
  "find_by_id i db = find_row (\<lambda>t. hi_id t = i) (hitl_transactions db)"

definition stored_hitl :: "platform \<Rightarrow> hitl_transaction \<Rightarrow> hitl_transaction" where
  "stored_hitl P t = t\<lparr>hi_intent_payload := stored_json P (hi_intent_payload t),
     hi_expires_at := stored_time P (hi_expires_at t),
     hi_resolved_at := map_option (stored_time P) (hi_resolved_at t),
     hi_created_at := stored_time P (hi_created_at t), hi_updated_at := stored_time P (hi_updated_at t)\<rparr>"

definition hitl_clash :: "hitl_transaction \<Rightarrow> database \<Rightarrow> bool" where
  "hitl_clash t db = list_ex (\<lambda>q. hi_idempotency_key q = hi_idempotency_key t \<or> hi_id q = hi_id t)
     (hitl_transactions db)"

definition new_hitl :: "settings \<Rightarrow> execution_intent \<Rightarrow> policy_decision \<Rightarrow> datetime \<Rightarrow> string \<Rightarrow> hitl_transaction" where
  "new_hitl settings intent decision now i =
     \<lparr>hi_id = i, hi_idempotency_key = in_idempotency_key intent, hi_agent_id = in_agent_id intent,
      hi_action = in_action intent, hi_intent_payload = JObj (in_payload intent),
      hi_requested_amount = in_requested_amount intent, hi_currency = in_currency intent,
      hi_risk_score = pd_risk_score decision, hi_reasons = pd_reasons decision, hi_status = PENDING,
      hi_reviewer_id = None, hi_reviewer_comment = None,
      hi_expires_at = plus_seconds now (approval_timeout_seconds settings), hi_resolved_at = None,
      hi_created_at = now, hi_updated_at = now\<rparr>"

definition create_or_get_hitl :: "service \<Rightarrow> (database \<Rightarrow> database) \<Rightarrow> execution_intent \<Rightarrow> policy_decision
    \<Rightarrow> hitl_transaction op" where
  "create_or_get_hitl S race intent decision =
     bindE (execute (find_by_key (in_idempotency_key intent))) (\<lambda>existing.
     case existing of Some t \<Rightarrow> ret t
     | None \<Rightarrow>
         bindE now_utc (\<lambda>now.
         bindE uuid4 (\<lambda>i.
         bindE (others_commit race) (\<lambda>_.
           let t = new_hitl (sv_settings S) intent decision now i
           in bindE (catchE
                (bindE (add_and_flush (hitl_clash t)
                   (\<lambda>db. db\<lparr>hitl_transactions := hitl_transactions db @ [stored_hitl (sv_platform S) t]\<rparr>))
                   (\<lambda>_. ret None))
                (\<lambda>e. if e = IntegrityError
                     then bindE (execute (find_by_key (in_idempotency_key intent))) (\<lambda>existing.
                       case existing of None \<Rightarrow> raise e | Some t \<Rightarrow> ret (Some t))
                     else raise e)) (\<lambda>recovered.
              case recovered of Some t \<Rightarrow> ret t
              | None \<Rightarrow>
                  bindE (audit_append S ''hitl_requested'' (in_agent_id intent)
                    (JObj [(''hitl_transaction_id'', JStr (hi_id t)), (''intent'', intent_json intent),
                       (''risk_score'', JInt (pd_risk_score decision)),
                       (''reasons'', JArr (map JStr (pd_reasons decision)))])) (\<lambda>_. ret t))))))"

definition publish_hitl_request :: "string \<Rightarrow> unit op" where
  "publish_hitl_request transaction_id =
     bindE now_utc (\<lambda>now.
     redis_publish ''marcel:hitl:requests''
       (py_str (JObj [(''event'', JStr ''hitl.requested''), (''transaction_id'', JStr transaction_id),
          (''occurred_at'', JStr (isoformat now))])))"

subsection \<open>Waiting for the resolution\<close>

definition get_transaction_status :: "string \<Rightarrow> hitl_status op" where
  "get_transaction_status transaction_id =
     with_session (bindE (execute (find_by_id transaction_id)) (\<lambda>found.
       case found of None \<Rightarrow> raise (GovernanceError ''HITL transaction no longer exists'')
       | Some t \<Rightarrow> ret (hi_status t)))"

text \<open>The update of one row of the table.\<close>

definition update_hitl :: "string \<Rightarrow> (hitl_transaction \<Rightarrow> hitl_transaction) \<Rightarrow> database \<Rightarrow> database" where
  "update_hitl i f db = db\<lparr>hitl_transactions := update_rows (\<lambda>t. hi_id t = i) f (hitl_transactions db)\<rparr>"

definition expire_transaction :: "service \<Rightarrow> string \<Rightarrow> string \<Rightarrow> unit op" where
  "expire_transaction S transaction_id actor_id =
     session_begin (bindE (execute (find_by_id transaction_id)) (\<lambda>found.
       case found of None \<Rightarrow> ret ()
       | Some t \<Rightarrow>
           if hi_status t \<noteq> PENDING then ret ()
           else bindE now_utc (\<lambda>now.
             bindE (update_db (update_hitl transaction_id (\<lambda>t. t\<lparr>hi_status := EXPIRED,
                 hi_resolved_at := Some (stored_time (sv_platform S) now),
                 hi_updated_at := stored_time (sv_platform S) now\<rparr>))) (\<lambda>_.
             bindE (audit_append S ''hitl_expired'' actor_id
               (JObj [(''hitl_transaction_id'', JStr transaction_id)])) (\<lambda>_. ret ())))))"

definition approval_granted :: "string \<Rightarrow> policy_decision op" where
  "approval_granted transaction_id =
     lift_result (new_policy_decision Allow 0 [''HITL approval granted''] [] None (Some transaction_id))"

definition resolution_decision :: "execution_intent \<Rightarrow> string \<Rightarrow> hitl_status \<Rightarrow> policy_decision op" where
  "resolution_decision intent transaction_id status_value =
     (if status_value = APPROVED then
        (case (in_requested_amount intent, in_currency intent) of
           (Some amount, Some currency) \<Rightarrow>
             bindE (session_begin (bindE (reserve (in_agent_id intent) currency amount)
                 (\<lambda>(reserved, left).
                    if \<not> reserved
                    then bindE (lift_result (new_policy_decision Deny 100
                        [''Budget reservation failed after approval''] [''system-budget''] left
                        (Some transaction_id))) (\<lambda>d. ret (Some d))
                    else ret None)))
               (\<lambda>failed. case failed of Some d \<Rightarrow> ret d | None \<Rightarrow> approval_granted transaction_id)
         | _ \<Rightarrow> approval_granted transaction_id)
      else if status_value = EXPIRED then raise (ApprovalTimeoutError ''HITL approval expired'')
      else raise (ApprovalRejectedError ''HITL approval rejected''))"

text \<open>
  The loop, over the turns the schedule lets happen.  \<open>None\<close>: the schedule ends and the loop is
  still waiting.
\<close>

fun await_loop :: "service \<Rightarrow> execution_intent \<Rightarrow> string \<Rightarrow> string \<Rightarrow> int \<Rightarrow> poll list
    \<Rightarrow> policy_decision option op" where
  "await_loop S intent transaction_id actor_id deadline [] = ret None"
| "await_loop S intent transaction_id actor_id deadline (p # ps) =
     (if deadline - pl_time p \<le> 0
      then bindE (expire_transaction S transaction_id actor_id) (\<lambda>_.
        raise (ApprovalTimeoutError ''HITL approval timed out''))
      else bindE (others_run (pl_others p)) (\<lambda>_.
        bindE (get_transaction_status transaction_id) (\<lambda>status_value.
          if \<not> pl_message p \<and> status_value \<notin> {APPROVED, REJECTED, EXPIRED}
          then await_loop S intent transaction_id actor_id deadline ps
          else bindE (resolution_decision intent transaction_id status_value) (\<lambda>d. ret (Some d)))))"

definition await_resolution :: "service \<Rightarrow> execution_intent \<Rightarrow> string \<Rightarrow> string \<Rightarrow> int \<Rightarrow> poll list
    \<Rightarrow> policy_decision option op" where
  "await_resolution S intent transaction_id actor_id start polls =
     await_loop S intent transaction_id actor_id
       (start + approval_timeout_seconds (sv_settings S) * 1000000) polls"

subsection \<open>Evaluation\<close>

text \<open>The first transaction.  \<open>Inl d\<close> is a \<open>return d\<close> inside it, \<open>Inr d\<close> goes on after it.\<close>

definition reservation_failed :: "policy_decision \<Rightarrow> dec option \<Rightarrow> policy_decision" where
  "reservation_failed decision left = decision\<lparr>pd_outcome := RequireApproval,
     pd_risk_score := max (pd_risk_score decision) 90,
     pd_reasons := pd_reasons decision @ [''Budget reservation failed''], pd_remaining_budget := left\<rparr>"

definition evaluation_transaction :: "service \<Rightarrow> (database \<Rightarrow> database) \<Rightarrow> execution_intent \<Rightarrow> string
    \<Rightarrow> (policy_decision + policy_decision) op" where
  "evaluation_transaction S race intent actor_id =
     session_begin (bindE (evaluate intent) (\<lambda>decision.
       bindE (audit_append S ''execution_intent_evaluated'' actor_id
         (JObj [(''intent'', intent_json intent), (''decision'', decision_json decision)])) (\<lambda>_.
       case pd_outcome decision of
         Deny \<Rightarrow> ret (Inl decision)
       | Allow \<Rightarrow>
           (case (in_requested_amount intent, in_currency intent) of
              (Some amount, Some currency) \<Rightarrow>
                bindE (reserve (in_agent_id intent) currency amount) (\<lambda>(reserved, left).
                  ret (Inl (if reserved then decision else reservation_failed decision left)))
            | _ \<Rightarrow> ret (Inl decision))
       | RequireApproval \<Rightarrow>
           bindE (create_or_get_hitl S race intent decision) (\<lambda>t.
             ret (Inr (decision\<lparr>pd_hitl_transaction_id := Some (hi_id t)\<rparr>))))))"

definition evaluate_or_wait :: "service \<Rightarrow> schedule \<Rightarrow> execution_intent \<Rightarrow> string \<Rightarrow> policy_decision option op" where
  "evaluate_or_wait S sched intent actor_id =
     bindE (evaluation_transaction S (sc_race sched) intent actor_id) (\<lambda>r.
     case r of Inl decision \<Rightarrow> ret (Some decision)
     | Inr decision \<Rightarrow>
         (case pd_hitl_transaction_id decision of
            Some transaction_id \<Rightarrow>
              if pd_outcome decision = RequireApproval \<and> transaction_id \<noteq> []
              then bindE (publish_hitl_request transaction_id) (\<lambda>_.
                await_resolution S intent transaction_id actor_id (sc_start sched) (sc_polls sched))
              else ret (Some decision)
          | None \<Rightarrow> ret (Some decision)))"

subsection \<open>Execution\<close>

definition commit_execution :: "service \<Rightarrow> execution_intent \<Rightarrow> string \<Rightarrow> unit op" where
  "commit_execution S intent actor_id =
     session_begin (bindE
       (case (in_requested_amount intent, in_currency intent) of
          (Some amount, Some currency) \<Rightarrow>
            bindE (commit (in_agent_id intent) currency amount) (\<lambda>b.
              reset (in_agent_id intent) currency (bu_limit_amount b - bu_consumed_amount b))
        | _ \<Rightarrow> ret ()) (\<lambda>_.
       bindE (audit_append S ''execution_completed'' actor_id (JObj [(''intent'', intent_json intent)]))
         (\<lambda>_. ret ())))"

definition record_execution_failure :: "service \<Rightarrow> execution_intent \<Rightarrow> string \<Rightarrow> string \<Rightarrow> string \<Rightarrow> unit op" where
  "record_execution_failure S intent actor_id error_type error_text =
     session_begin (bindE
       (case (in_requested_amount intent, in_currency intent) of
          (Some amount, Some currency) \<Rightarrow> release (in_agent_id intent) currency amount
        | _ \<Rightarrow> ret ()) (\<lambda>_.
       bindE (audit_append S ''execution_failed'' actor_id
         (JObj [(''intent'', intent_json intent), (''error_type'', JStr error_type),
           (''error'', JStr (take 1000 error_text))])) (\<lambda>_. ret ())))"

text \<open>An intercepted tool: it returns, or raises an exception with a type name and a text.\<close>

type_synonym 'r tool = "world \<Rightarrow> ((string \<times> string) + 'r) \<times> world"

definition run_tool :: "service \<Rightarrow> execution_intent \<Rightarrow> string \<Rightarrow> 'r tool \<Rightarrow> 'r option op" where
  "run_tool S intent actor_id operation w =
     (case operation w of
        (Inl (error_type, error_text), w') \<Rightarrow>
          bindE (record_execution_failure S intent actor_id error_type error_text) (\<lambda>_.
            raise (ToolError error_type error_text)) w'
      | (Inr r, w') \<Rightarrow> bindE (commit_execution S intent actor_id) (\<lambda>_. ret (Some r)) w')"

definition execute_tool :: "service \<Rightarrow> schedule \<Rightarrow> execution_intent \<Rightarrow> string \<Rightarrow> 'r tool \<Rightarrow> 'r option op" where
  "execute_tool S sched intent actor_id operation =
     bindE (evaluate_or_wait S sched intent actor_id) (\<lambda>waited.
     case waited of None \<Rightarrow> ret None
     | Some decision \<Rightarrow>
         if pd_outcome decision = Deny
         then raise (ExecutionDeniedError (py_join ''; '' (pd_reasons decision)))
         else if pd_outcome decision \<noteq> Allow
         then raise (ApprovalRejectedError ''Execution was not approved'')
         else run_tool S intent actor_id operation)"

text \<open>The decorator: the wrapped function of some arguments, for a function that is asynchronous.\<close>

definition wrap :: "service \<Rightarrow> ('p \<Rightarrow> execution_intent result) \<Rightarrow> ('p \<Rightarrow> string result) \<Rightarrow> bool
    \<Rightarrow> ('p \<Rightarrow> 'r tool) \<Rightarrow> (schedule \<Rightarrow> 'p \<Rightarrow> 'r option op) result" where
  "wrap S intent_builder actor_id_builder is_coroutine_function f =
     (if \<not> is_coroutine_function then Inl (TypeError ''Intercepted tool functions must be async'')
      else Inr (\<lambda>sched args.
        bindE (lift_result (intent_builder args)) (\<lambda>intent.
        bindE (lift_result (actor_id_builder args)) (\<lambda>actor_id.
        execute_tool S sched intent actor_id (f args)))))"

subsection \<open>Atomicity\<close>

lemmas base_interceptor = base_governor base_append base_quiet [OF quiet_evaluate]

lemma base_commit_execution:
  "obeys same_base (bindE
       (case (in_requested_amount intent, in_currency intent) of
          (Some amount, Some currency) \<Rightarrow>
            bindE (commit (in_agent_id intent) currency amount) (\<lambda>b.
              reset (in_agent_id intent) currency (bu_limit_amount b - bu_consumed_amount b))
        | _ \<Rightarrow> ret ()) (\<lambda>_. bindE (audit_append S e a p) (\<lambda>_. ret ())))"
  by (intro base_interceptor) (auto intro!: base_interceptor split: option.split)

lemma commit_execution_atomic:
  "commit_execution S i a w = (Inl e, w') \<Longrightarrow> w_db w' = w_db w"
  unfolding commit_execution_def by (rule session_begin_rollback [OF base_commit_execution])

lemma others_commit_id: "others_commit id = ret ()"
  by (rule ext) (simp add: others_commit_def modify_s_def ret_def)

lemma base_create_or_get_hitl: "obeys same_base (create_or_get_hitl S id i d)"
  unfolding create_or_get_hitl_def Let_def others_commit_id by (intro base_interceptor)

lemma evaluation_transaction_atomic:
  assumes "evaluation_transaction S id i a w = (Inl e, w')"
  shows "w_db w' = w_db w"
proof (rule session_begin_rollback [OF _ assms [unfolded evaluation_transaction_def]])
  have "obeys same_base (case pd_outcome decision of
         Deny \<Rightarrow> ret (Inl decision)
       | Allow \<Rightarrow>
           (case (in_requested_amount i, in_currency i) of
              (Some amount, Some currency) \<Rightarrow>
                bindE (reserve (in_agent_id i) currency amount) (\<lambda>(reserved, left).
                  ret (Inl (if reserved then decision else reservation_failed decision left)))
            | _ \<Rightarrow> ret (Inl decision))
       | RequireApproval \<Rightarrow>
           bindE (create_or_get_hitl S id i decision) (\<lambda>t.
             ret (Inr (decision\<lparr>pd_hitl_transaction_id := Some (hi_id t)\<rparr>))))" for decision
    by (cases "pd_outcome decision"; cases "in_requested_amount i"; cases "in_currency i")
      (auto simp: case_prod_beta intro!: base_interceptor base_create_or_get_hitl)
  then show "obeys same_base (bindE (evaluate i) (\<lambda>decision.
       bindE (audit_append S ''execution_intent_evaluated'' a
         (JObj [(''intent'', intent_json i), (''decision'', decision_json decision)])) (\<lambda>_.
       case pd_outcome decision of
         Deny \<Rightarrow> ret (Inl decision)
       | Allow \<Rightarrow>
           (case (in_requested_amount i, in_currency i) of
              (Some amount, Some currency) \<Rightarrow>
                bindE (reserve (in_agent_id i) currency amount) (\<lambda>(reserved, left).
                  ret (Inl (if reserved then decision else reservation_failed decision left)))
            | _ \<Rightarrow> ret (Inl decision))
       | RequireApproval \<Rightarrow>
           bindE (create_or_get_hitl S id i decision) (\<lambda>t.
             ret (Inr (decision\<lparr>pd_hitl_transaction_id := Some (hi_id t)\<rparr>))))))"
    by (intro base_interceptor)
qed

subsection \<open>Where an approval comes from\<close>

lemma await_loop_Some:
  "await_loop S i tid a deadline ps w = (Inr (Some d), w') \<Longrightarrow>
    \<exists>u st u'. get_transaction_status tid u = (Inr st, u') \<and> resolution_decision i tid st u' = (Inr d, w')"
proof (induction ps arbitrary: w)
  case Nil
  then show ?case by (simp add: ret_def)
next
  case (Cons p ps)
  then show ?case
    by (auto simp: bindE_Inr ret_def raise_def split: if_splits)
qed

lemma resolution_Allow:
  assumes "resolution_decision i tid st w = (Inr d, w')" and "pd_outcome d = Allow"
  shows "st = APPROVED"
  using assms by (simp add: resolution_decision_def raise_def split: if_splits)

lemma evaluation_transaction_Inr:
  assumes "evaluation_transaction S race i a w = (Inr r, w')"
  obtains d0 v q v' where
    "evaluate i (w\<lparr>w_base := w_db w, w_session_ok := True\<rparr>) = (Inr d0, v)"
    and "audit_append S ''execution_intent_evaluated'' a
       (JObj [(''intent'', intent_json i), (''decision'', decision_json d0)]) v = (Inr q, v')"
    and "(case pd_outcome d0 of
         Deny \<Rightarrow> ret (Inl d0)
       | Allow \<Rightarrow>
           (case (in_requested_amount i, in_currency i) of
              (Some amount, Some currency) \<Rightarrow>
                bindE (reserve (in_agent_id i) currency amount) (\<lambda>(reserved, left).
                  ret (Inl (if reserved then d0 else reservation_failed d0 left)))
            | _ \<Rightarrow> ret (Inl d0))
       | RequireApproval \<Rightarrow>
           bindE (create_or_get_hitl S race i d0) (\<lambda>t.
             ret (Inr (d0\<lparr>pd_hitl_transaction_id := Some (hi_id t)\<rparr>)))) v' = (Inr r, w')"
  using assms unfolding evaluation_transaction_def session_begin_Inr bindE_Inr by blast

text \<open>What an immediate answer and an answer after waiting look like.\<close>

lemma evaluation_transaction_outcome:
  assumes "evaluation_transaction S race i a w = (Inr r, w')"
  obtains d0 v where "evaluate i (w\<lparr>w_base := w_db w, w_session_ok := True\<rparr>) = (Inr d0, v)"
    and "\<And>d. r = Inl d \<Longrightarrow> pd_outcome d = Allow \<Longrightarrow> pd_outcome d0 = Allow \<and> d = d0"
    and "\<And>d. r = Inr d \<Longrightarrow> pd_outcome d0 = RequireApproval \<and> pd_outcome d = RequireApproval"
  using assms
proof (cases rule: evaluation_transaction_Inr)
  case (1 d0 v q v')
  show thesis
  proof (rule that [OF 1(1)])
    show "pd_outcome d = Allow \<Longrightarrow> pd_outcome d0 = Allow \<and> d = d0" if "r = Inl d" for d
      using 1(3) that
      by (auto simp: ret_def bindE_Inr reservation_failed_def
          split: outcome.splits option.splits prod.splits if_splits)
    show "pd_outcome d0 = RequireApproval \<and> pd_outcome d = RequireApproval" if "r = Inr d" for d
      using 1(3) that
      by (auto simp: ret_def bindE_Inr split: outcome.splits option.splits prod.splits if_splits)
  qed
qed

lemma evaluate_or_wait_Some:
  assumes "evaluate_or_wait S sched i a w = (Inr (Some d), w')"
  obtains w1 where "evaluation_transaction S (sc_race sched) i a w = (Inr (Inl d), w1)"
    | d1 w1 where "evaluation_transaction S (sc_race sched) i a w = (Inr (Inr d1), w1)" and "d = d1"
    | d1 w1 tid u st u' where "evaluation_transaction S (sc_race sched) i a w = (Inr (Inr d1), w1)"
        and "get_transaction_status tid u = (Inr st, u')" and "resolution_decision i tid st u' = (Inr d, w')"
proof -
  from assms obtain r w1 where r: "evaluation_transaction S (sc_race sched) i a w = (Inr r, w1)"
    and rest: "(case r of Inl decision \<Rightarrow> ret (Some decision)
     | Inr decision \<Rightarrow>
         (case pd_hitl_transaction_id decision of
            Some transaction_id \<Rightarrow>
              if pd_outcome decision = RequireApproval \<and> transaction_id \<noteq> []
              then bindE (publish_hitl_request transaction_id) (\<lambda>_.
                await_resolution S i transaction_id a (sc_start sched) (sc_polls sched))
              else ret (Some decision)
          | None \<Rightarrow> ret (Some decision))) w1 = (Inr (Some d), w')"
    unfolding evaluate_or_wait_def bindE_Inr by blast
  show thesis
  proof (cases r)
    case (Inl x)
    then show thesis using that(1) r rest by (simp add: ret_def)
  next
    case (Inr d1)
    show thesis
    proof (cases "\<exists>tid. pd_hitl_transaction_id d1 = Some tid \<and> pd_outcome d1 = RequireApproval \<and> tid \<noteq> []")
      case False
      then have "d1 = d" using rest Inr by (auto simp: ret_def split: option.splits if_splits)
      then show thesis using that(2) r Inr by simp
    next
      case True
      then obtain tid where "bindE (publish_hitl_request tid) (\<lambda>_.
          await_resolution S i tid a (sc_start sched) (sc_polls sched)) w1 = (Inr (Some d), w')"
        using rest Inr by auto
      then show thesis
        using await_loop_Some that(3) r Inr unfolding bindE_Inr await_resolution_def by blast
    qed
  qed
qed

lemma allow_origin:
  assumes "evaluate_or_wait S sched i a w = (Inr (Some d), w')" and "pd_outcome d = Allow"
  shows "\<exists>d0 v. evaluate i (w\<lparr>w_base := w_db w, w_session_ok := True\<rparr>) = (Inr d0, v)
    \<and> (pd_outcome d0 = Allow \<and> d = d0
       \<or> pd_outcome d0 = RequireApproval
         \<and> (\<exists>tid u u'. get_transaction_status tid u = (Inr APPROVED, u')
              \<and> resolution_decision i tid APPROVED u' = (Inr d, w')))"
  using assms(1)
proof (cases rule: evaluate_or_wait_Some)
  case (1 w1)
  then show ?thesis using assms(2) by (elim evaluation_transaction_outcome) blast
next
  case (2 d1 w1)
  then show ?thesis using assms(2) by (elim evaluation_transaction_outcome) simp
next
  case (3 d1 w1 tid u st u')
  then have "st = APPROVED" using resolution_Allow assms(2) by blast
  then show ?thesis using 3 by (elim evaluation_transaction_outcome) blast
qed

text \<open>The tool is only a continuation of an allowed decision.\<close>

lemma execute_tool_not_allowed:
  assumes "\<And>d v. evaluate_or_wait S sched i a w = (Inr (Some d), v) \<Longrightarrow> pd_outcome d \<noteq> Allow"
  shows "execute_tool S sched i a tool w = execute_tool S sched i a tool' w"
proof -
  obtain r v where run: "evaluate_or_wait S sched i a w = (r, v)" by fastforce
  show ?thesis
  proof (cases r)
    case (Inl e)
    then show ?thesis using run by (simp add: execute_tool_def bindE_def)
  next
    case (Inr x)
    then show ?thesis
      using run assms by (cases x) (auto simp: execute_tool_def bindE_def)
  qed
qed

subsection \<open>The waiting loop\<close>

lemma expire_no_return:
  "bindE (expire_transaction S tid a) (\<lambda>_. raise e) w = (Inr x, w') \<Longrightarrow> False"
  by (simp add: bindE_Inr raise_def)

lemma await_loop_answers:
  assumes "p \<in> set ps" and "deadline \<le> pl_time p"
  shows "fst (await_loop S i tid a deadline ps w) \<noteq> Inr None"
  using assms
proof (induction ps arbitrary: w)
  case (Cons q ps)
  show ?case
  proof
    assume "fst (await_loop S i tid a deadline (q # ps) w) = Inr None"
    from fst_run [OF this] obtain w' where run: "await_loop S i tid a deadline (q # ps) w = (Inr None, w')" ..
    have late: "\<not> deadline - pl_time q \<le> 0"
    proof
      assume "deadline - pl_time q \<le> 0"
      with run show False by (simp add: bindE_Inr raise_def)
    qed
    with run obtain v where "await_loop S i tid a deadline ps v = (Inr None, w')"
      by (auto simp: bindE_Inr ret_def split: if_splits)
    moreover have "p \<in> set ps" using Cons.prems late by auto
    ultimately show False using Cons.IH [of v] Cons.prems(2) by simp
  qed
qed simp

lemma get_transaction_status_run:
  "get_transaction_status tid w =
     (case find_by_id tid (w_db w) of Inl e \<Rightarrow> Inl e
      | Inr None \<Rightarrow> Inl (GovernanceError ''HITL transaction no longer exists'')
      | Inr (Some t) \<Rightarrow> Inr (hi_status t), w\<lparr>w_base := w_db w, w_session_ok := True\<rparr>)"
  by (cases "find_by_id tid (w_db w)")
    (auto simp: get_transaction_status_def with_session_def execute_bind raise_def ret_def split: option.split)

lemma expire_transaction_expires:
  assumes "expire_transaction S tid a w = (Inr (), w')" and "find_by_id tid (w_db w) = Inr (Some t)"
    and "hi_status t = PENDING"
  shows "\<exists>t'. find_by_id tid (w_db w') = Inr (Some t') \<and> hi_status t' = EXPIRED \<and> hi_id t' = hi_id t"
proof -
  let ?f = "\<lambda>now t. t\<lparr>hi_status := EXPIRED, hi_resolved_at := Some (stored_time (sv_platform S) now),
                 hi_updated_at := stored_time (sv_platform S) now\<rparr>"
  from assms obtain now w1 w2 q where upd: "update_db (update_hitl tid (?f now)) w1 = (Inr (), w2)"
    and w1: "now_utc (w\<lparr>w_base := w_db w, w_session_ok := True\<rparr>) = (Inr now, w1)"
    and app: "audit_append S ''hitl_expired'' a (JObj [(''hitl_transaction_id'', JStr tid)]) w2 = (Inr q, w')"
    by (auto simp: expire_transaction_def session_begin_Inr execute_bind bindE_Inr ret_def)
  have "w_db w2 = update_hitl tid (?f now) (w_db w)"
    using upd same_sessionD(1) [OF quiet_now w1] by (auto simp: update_db_def modify_s_def)
  moreover have "hitl_transactions (w_db w') = hitl_transactions (w_db w2)"
    using append_Inr(3) [OF app] by simp
  moreover have "find_row (\<lambda>t. hi_id t = tid) (update_rows (\<lambda>t. hi_id t = tid) (?f now) (hitl_transactions (w_db w)))
      = Inr (Some (?f now t))"
    using assms(2) by (intro find_row_update_same) (simp_all add: find_by_id_def)
  ultimately show ?thesis by (simp add: find_by_id_def update_hitl_def)
qed

text \<open>
  The expiry of a pending request goes through on a log that verifies, unless the new identifier or
  the new hash is taken.
\<close>

definition expiry_entry :: "service \<Rightarrow> string \<Rightarrow> string \<Rightarrow> world \<Rightarrow> audit_log" where
  "expiry_entry S tid a w = new_entry (sv_platform S) (audit_hmac_key (sv_settings S)) ''hitl_expired'' a
     (JObj [(''hitl_transaction_id'', JStr tid)]) (last_entry (audit_logs (w_db w)))
     (Datetime (w_clock w (Suc (w_ticks w))) True) (w_uuid w (w_uuids w))"

lemma expire_transaction_runs:
  assumes "chain_ok (sv_platform S) (audit_hmac_key (sv_settings S)) (log_of (w_db w)) None 1"
    and "0 < length a" "length a \<le> 128"
    and "\<forall>q \<in> set (audit_logs (w_db w)). au_id q \<noteq> w_uuid w (w_uuids w)
      \<and> au_entry_hash q \<noteq> au_entry_hash (expiry_entry S tid a w)"
    and "find_by_id tid (w_db w) = Inr (Some t)" and "hi_status t = PENDING"
  shows "\<exists>w'. expire_transaction S tid a w = (Inr (), w')
    \<and> audit_logs (w_db w') = audit_logs (w_db w) @ [stored_entry (sv_platform S) (expiry_entry S tid a w)]"
proof -
  let ?P = "sv_platform S" and ?p = "JObj [(''hitl_transaction_id'', JStr tid)]"
  let ?now = "Datetime (w_clock w (w_ticks w)) True"
  let ?u = "update_hitl tid (\<lambda>t. t\<lparr>hi_status := EXPIRED, hi_resolved_at := Some (stored_time ?P ?now),
                 hi_updated_at := stored_time ?P ?now\<rparr>)"
  define w2 where "w2 = w\<lparr>w_base := w_db w, w_session_ok := True, w_ticks := Suc (w_ticks w), w_db := ?u (w_db w)\<rparr>"
  have logs: "audit_logs (w_db w2) = audit_logs (w_db w)" by (simp add: w2_def update_hitl_def)
  then have entry: "next_entry ?P (audit_hmac_key (sv_settings S)) ''hitl_expired'' a ?p w2 = expiry_entry S tid a w"
    by (simp add: next_entry_def expiry_entry_def w2_def)
  have "\<not> audit_clash (expiry_entry S tid a w) (w_db w)"
    using assms(4) unfolding expiry_entry_def by (intro chain_no_clash [OF assms(1)])
  then have "\<exists>w'. audit_append S ''hitl_expired'' a ?p w2 = (Inr (expiry_entry S tid a w), w')"
    using assms(2,3) entry append_returns [of "''hitl_expired''" a w2 ?P "audit_hmac_key (sv_settings S)" ?p]
    by (simp add: audit_clash_def logs) (simp add: w2_def)
  then obtain w' where app: "audit_append S ''hitl_expired'' a ?p w2 = (Inr (expiry_entry S tid a w), w')" by blast
  have "expire_transaction S tid a w = (Inr (), w')"
    using app assms(5,6) unfolding expire_transaction_def session_begin_Inr
    by (simp add: execute_bind)
      (simp add: bindE_def now_utc_def tick_def ret_def update_db_def modify_s_def w2_def)
  then show ?thesis using append_Inr(3,4) [OF app] logs by auto
qed

subsection \<open>Settling\<close>

text \<open>A settlement that returns consumed exactly the amount, within the limit.\<close>

lemma commit_execution_exact:
  assumes "commit_execution S i a w = (Inr (), w')" and "in_requested_amount i = Some x"
    and "in_currency i = Some c"
  shows "\<exists>b b'. find_row (is_budget (in_agent_id i) c) (budgets (w_db w)) = Inr (Some b)
    \<and> find_row (is_budget (in_agent_id i) c) (budgets (w_db w')) = Inr (Some b')
    \<and> bu_consumed_amount b' = bu_consumed_amount b + x \<and> \<not> bu_limit_amount b' < bu_consumed_amount b'
    \<and> bu_limit_amount b' = bu_limit_amount b \<and> bu_version b' = bu_version b + 1"
proof -
  let ?w = "w\<lparr>w_base := w_db w, w_session_ok := True\<rparr>"
  from assms obtain b' w1 w2 q where com: "commit (in_agent_id i) c x ?w = (Inr b', w1)"
    and res: "reset (in_agent_id i) c (bu_limit_amount b' - bu_consumed_amount b') w1 = (Inr (), w2)"
    and app: "audit_append S ''execution_completed'' a (JObj [(''intent'', intent_json i)]) w2 = (Inr q, w')"
    by (auto simp: commit_execution_def session_begin_Inr bindE_Inr ret_def)
  from com obtain b t where b: "find_row (is_budget (in_agent_id i) c) (budgets (w_db w)) = Inr (Some b)"
    and cap: "\<not> bu_limit_amount b < bu_consumed_amount b + x" and b': "b' = consume b x t b"
    and db: "w_db w1 = (w_db w)\<lparr>budgets :=
       update_rows (\<lambda>r. bu_id r = bu_id b) (consume b x t) (budgets (w_db w))\<rparr>"
    by (rule commit_Inr) auto
  have "find_row (is_budget (in_agent_id i) c) (budgets (w_db w1)) = Inr (Some (consume b x t b))"
    unfolding db using find_row_update_found [OF b, of "consume b x t" "\<lambda>r. bu_id r = bu_id b"]
    by (simp add: is_budget_def)
  moreover have "budgets (w_db w') = budgets (w_db w1)"
    using append_Inr(3) [OF app] same_sessionD(1) [OF quiet_reset res] by simp
  ultimately show ?thesis using b cap by auto
qed

lemma run_tool_failure:
  assumes "tool w = (Inl (ty, s), w1)" and "record_execution_failure S i a ty s w1 = (Inr (), w')"
  shows "run_tool S i a tool w = (Inl (ToolError ty s), w') \<and> budgets (w_db w') = budgets (w_db w1)"
proof -
  let ?w = "w1\<lparr>w_base := w_db w1, w_session_ok := True\<rparr>"
  let ?rel = "case (in_requested_amount i, in_currency i) of
          (Some amount, Some currency) \<Rightarrow> release (in_agent_id i) currency amount | _ \<Rightarrow> ret ()"
  from assms(2) obtain w2 q where rel: "?rel ?w = (Inr (), w2)"
    and app: "audit_append S ''execution_failed'' a (JObj [(''intent'', intent_json i),
      (''error_type'', JStr ty), (''error'', JStr (take 1000 s))]) w2 = (Inr q, w')"
    by (auto simp: record_execution_failure_def session_begin_Inr bindE_Inr ret_def)
  have "obeys same_session ?rel" by (auto intro!: quiet_governor split: option.split)
  from same_sessionD(1) [OF this rel] have "budgets (w_db w') = budgets (w_db w1)"
    using append_Inr(3) [OF app] by simp
  then show ?thesis using assms by (simp add: run_tool_def bindE_def raise_def)
qed

subsection \<open>Replays and races\<close>

lemma create_or_get_existing:
  assumes "w_session_ok w" and "find_by_key (in_idempotency_key i) (w_db w) = Inr (Some t)"
  shows "create_or_get_hitl S race i d w = (Inr t, w)"
  using assms by (simp add: create_or_get_hitl_def execute_bind ret_def)

lemma create_or_get_race:
  assumes "w_session_ok w" and "find_by_key (in_idempotency_key i) (w_db w) = Inr None"
    and "find_by_key (in_idempotency_key i) (race (w_db w)) = Inr (Some t)"
  shows "fst (create_or_get_hitl S race i d w) = Inl PendingRollbackError"
proof -
  have t: "t \<in> set (hitl_transactions (race (w_db w)))" "hi_idempotency_key t = in_idempotency_key i"
    using assms(3) find_row_Some unfolding find_by_key_def by fast+
  have clash: "hitl_clash (new_hitl s i d now x) (race (w_db w))" for s now x
    using t by (auto simp: hitl_clash_def list_ex_iff new_hitl_def)
  show ?thesis
    using assms(1,2) clash
    by (simp add: create_or_get_hitl_def execute_bind)
      (simp add: Let_def bindE_def now_utc_def tick_def uuid4_def others_commit_def modify_s_def ret_def catchE_def
        add_and_flush_def execute_def)
qed

lemma resolution_plain:
  assumes "in_requested_amount i = None"
  shows "\<exists>d. resolution_decision i tid APPROVED w = (Inr d, w) \<and> pd_outcome d = Allow"
  using assms
  by (simp add: resolution_decision_def approval_granted_def new_policy_decision_def int_field_def lift_result_def)

lemma await_loop_approved:
  assumes "find_by_id tid (w_db w) = Inr (Some t)" and "hi_status t = APPROVED"
    and "in_requested_amount i = None" and "pl_others p = id" and "pl_time p < deadline"
  shows "\<exists>w' d. await_loop S i tid a deadline (p # ps) w = (Inr (Some d), w') \<and> pd_outcome d = Allow"
proof -
  let ?v = "w\<lparr>w_base := w_db w, w_session_ok := True\<rparr>"
  have st: "get_transaction_status tid w = (Inr APPROVED, ?v)"
    using assms(1,2) by (simp add: get_transaction_status_run)
  obtain d where d: "resolution_decision i tid APPROVED ?v = (Inr d, ?v)" "pd_outcome d = Allow"
    using resolution_plain [OF assms(3)] by blast
  have "await_loop S i tid a deadline (p # ps) w = (Inr (Some d), ?v)"
    using assms(4,5) by (simp add: bindE_def others_run_def modify_s_def st d(1) ret_def)
  with d(2) show ?thesis by blast
qed

lemma resolution_over_budget:
  assumes "resolution_decision i tid APPROVED w = (Inr d, w')" and "in_requested_amount i = Some x"
    and "in_currency i = Some c" and "find_row (is_budget (in_agent_id i) c) (budgets (w_db w)) = Inr (Some b)"
    and "bu_active b" and "bu_limit_amount b - bu_consumed_amount b < x"
  shows "pd_outcome d = Deny"
proof -
  let ?w = "w\<lparr>w_base := w_db w, w_session_ok := True\<rparr>"
  from assms(1-3) obtain f w1 where body: "bindE (reserve (in_agent_id i) c x)
                 (\<lambda>(reserved, left).
                    if \<not> reserved
                    then bindE (lift_result (new_policy_decision Deny 100
                        [''Budget reservation failed after approval''] [''system-budget''] left
                        (Some tid))) (\<lambda>d. ret (Some d))
                    else ret None) ?w = (Inr f, w1)"
    and rest: "(case f of Some d \<Rightarrow> ret d | None \<Rightarrow> approval_granted tid) w1 = (Inr d, w')"
    by (auto simp: resolution_decision_def bindE_Inr session_begin_Inr)
  have "\<exists>r. fst (reserve (in_agent_id i) c x ?w) = Inr (False, r) \<or> (\<exists>e. fst (reserve (in_agent_id i) c x ?w) = Inl e)"
    using assms(4-6) by (simp add: reserve_def get_budget_def execute_bind raise_def ret_def)
  then obtain d' where "f = Some d'" and "pd_outcome d' = Deny"
    using body
    by (auto simp: bindE_Inr lift_bind ret_def new_policy_decision_def int_field_def lift_result_def)
  then show ?thesis using rest by (simp add: ret_def)
qed

subsection \<open>Samples\<close>

definition sample_service :: service where
  "sample_service = \<lparr>sv_platform = sample_platform, sv_settings = sample_settings\<rparr>"

definition idle_poll :: "int \<Rightarrow> poll" where
  "idle_poll t = \<lparr>pl_time = t, pl_others = id, pl_message = False\<rparr>"

definition sample_schedule :: schedule where
  "sample_schedule = \<lparr>sc_race = id, sc_start = 0, sc_polls = [idle_poll 0]\<rparr>"

definition sample_plain :: execution_intent where
  "sample_plain = (sample_intent (Dec 20 0))\<lparr>in_requested_amount := None, in_currency := None\<rparr>"

definition sample_plain_allow :: policy_decision where
  "sample_plain_allow = sample_allow\<lparr>pd_remaining_budget := None\<rparr>"

lemma sample_plain_run: "fst (evaluate sample_plain sample_world) = Inr sample_plain_allow"
  by code_simp

lemma sample_world_session: "sample_world\<lparr>w_base := w_db sample_world, w_session_ok := True\<rparr> = sample_world"
  by (simp add: sample_world_def)

lemma sample_world_sel [simp]:
  "w_db sample_world = sample_database" "w_base sample_world = sample_database" "w_session_ok sample_world"
  by (simp_all add: sample_world_def)

lemma sample_database_sel [simp]:
  "audit_logs sample_database = []" "hitl_transactions sample_database = []"
  by (simp_all add: sample_database_def)

text \<open>An append to an empty log returns.\<close>

lemma append_empty:
  assumes "e \<noteq> []" "length e \<le> 128" "a \<noteq> []" "length a \<le> 128" "w_session_ok w" "audit_logs (w_db w) = []"
  shows "\<exists>q w'. append P key e a p w = (Inr q, w')"
proof -
  have "\<not> audit_clash (next_entry P key e a p w) (w_db w)" using assms(6) by (simp add: audit_clash_def)
  then show ?thesis using append_returns [OF assms(1-5)] by blast
qed

lemma evaluate_or_wait_immediate:
  assumes "evaluate i (w\<lparr>w_base := w_db w, w_session_ok := True\<rparr>) = (Inr d, v)"
    and "audit_append S ''execution_intent_evaluated'' a
       (JObj [(''intent'', intent_json i), (''decision'', decision_json d)]) v = (Inr q, v')"
    and "pd_outcome d = Deny \<or> pd_outcome d = Allow \<and> in_requested_amount i = None"
  shows "evaluate_or_wait S sched i a w = (Inr (Some d), v')"
proof -
  have "evaluation_transaction S (sc_race sched) i a w = (Inr (Inl d), v')"
    unfolding evaluation_transaction_def session_begin_Inr
    unfolding bindE_Inr
  proof (intro exI conjI)
    show "(case pd_outcome d of
         Deny \<Rightarrow> ret (Inl d)
       | Allow \<Rightarrow>
           (case (in_requested_amount i, in_currency i) of
              (Some amount, Some currency) \<Rightarrow>
                bindE (reserve (in_agent_id i) currency amount) (\<lambda>(reserved, left).
                  ret (Inl (if reserved then d else reservation_failed d left)))
            | _ \<Rightarrow> ret (Inl d))
       | RequireApproval \<Rightarrow>
           bindE (create_or_get_hitl S (sc_race sched) i d) (\<lambda>t.
             ret (Inr (d\<lparr>pd_hitl_transaction_id := Some (hi_id t)\<rparr>)))) v' = (Inr (Inl d), v')"
      using assms(3) by (auto simp: ret_def)
  qed (rule assms(1,2))+
  then show ?thesis by (simp add: evaluate_or_wait_def bindE_def ret_def)
qed

lemma sample_immediate:
  assumes "fst (evaluate i sample_world) = Inr d"
    and "pd_outcome d = Deny \<or> pd_outcome d = Allow \<and> in_requested_amount i = None"
  shows "\<exists>w'. evaluate_or_wait sample_service sched i ''alice'' sample_world = (Inr (Some d), w')"
proof -
  from fst_run [OF assms(1)] obtain v where run: "evaluate i sample_world = (Inr d, v)" ..
  note v = same_sessionD [OF quiet_evaluate run]
  have "\<exists>q w'. audit_append sample_service ''execution_intent_evaluated'' ''alice''
       (JObj [(''intent'', intent_json i), (''decision'', decision_json d)]) v = (Inr q, w')"
    using v by (intro append_empty) simp_all
  then show ?thesis
    using evaluate_or_wait_immediate [of i sample_world d v sample_service "''alice''"] run assms(2)
    unfolding sample_world_session by blast
qed

text \<open>A pending request, and the world that holds it.\<close>

definition sample_hitl :: "hitl_status \<Rightarrow> hitl_transaction" where
  "sample_hitl st = (new_hitl sample_settings (sample_intent (Dec 60 0)) sample_allow sample_time ''hitl-1'')\<lparr>hi_status := st\<rparr>"

definition hitl_world :: "hitl_status \<Rightarrow> world" where
  "hitl_world st = sample_world\<lparr>w_db := sample_database\<lparr>hitl_transactions := [sample_hitl st]\<rparr>\<rparr>"

lemma hitl_world_find [simp]:
  "find_by_id ''hitl-1'' (w_db (hitl_world st)) = Inr (Some (sample_hitl st))"
  "find_by_key ''key-000000000001'' (w_db (hitl_world st)) = Inr (Some (sample_hitl st))"
  "hi_status (sample_hitl st) = st" "hi_id (sample_hitl st) = ''hitl-1''" "w_session_ok (hitl_world st)"
  by (simp_all add: hitl_world_def sample_hitl_def new_hitl_def sample_intent_def find_by_id_def find_by_key_def
      find_row_def scalar_one_or_none_def)

subsection \<open>Properties\<close>

text \<open>
  C2: An intent is allowed only if the engine allowed it in the first transaction, or the engine
  asked for an approval and the status of a request was read as approved, from which the
  answer was derived.  A denial of the engine is never turned into a permission.
\<close>

theorem allow_needs_engine_or_approval:
  assumes "evaluate_or_wait S sched i a w = (Inr (Some d), w')" and "pd_outcome d = Allow"
  shows "\<exists>d0 v. evaluate i (w\<lparr>w_base := w_db w, w_session_ok := True\<rparr>) = (Inr d0, v)
    \<and> (pd_outcome d0 = Allow \<and> d = d0
       \<or> pd_outcome d0 = RequireApproval
         \<and> (\<exists>tid u u'. get_transaction_status tid u = (Inr APPROVED, u')
              \<and> resolution_decision i tid APPROVED u' = (Inr d, w')))"
  using assms by (rule allow_origin)

lemma allow_needs_engine_or_approval_witness:
  "\<exists>d0 v. evaluate sample_plain sample_world = (Inr d0, v) \<and> pd_outcome d0 \<noteq> Deny"
proof -
  have "pd_outcome sample_plain_allow = Allow" by (simp add: sample_plain_allow_def sample_allow_def)
  moreover from this obtain w' where
    "evaluate_or_wait sample_service sample_schedule sample_plain ''alice'' sample_world = (Inr (Some sample_plain_allow), w')"
    using sample_immediate [OF sample_plain_run] by (auto simp: sample_plain_def)
  ultimately show ?thesis
    using allow_needs_engine_or_approval [of sample_service sample_schedule sample_plain "''alice''" sample_world]
    unfolding sample_world_session by fastforce
qed

text \<open>
  C3: The tool runs only behind an allowed decision: when waiting gives no allowed decision, the
  run of the interceptor is the same for every tool, so the tool has no effect on it.
\<close>

theorem tool_needs_allow:
  assumes "\<forall>d v. evaluate_or_wait S sched i a w = (Inr (Some d), v) \<longrightarrow> pd_outcome d \<noteq> Allow"
  shows "execute_tool S sched i a tool w = execute_tool S sched i a tool' w"
  using assms by (intro execute_tool_not_allowed) blast

definition stranger :: execution_intent where
  "stranger = sample_plain\<lparr>in_agent_id := ''nobody''\<rparr>"

lemma tool_needs_allow_witness:
  "execute_tool sample_service sample_schedule stranger ''alice'' (\<lambda>w. (Inr True, w)) sample_world
   = execute_tool sample_service sample_schedule stranger ''alice'' (\<lambda>w. (Inr False, w)) sample_world"
proof (rule tool_needs_allow)
  have "fst (evaluate stranger sample_world) = Inr (denial_decision ''Agent is not registered or active'')" by code_simp
  then have "\<exists>w'. evaluate_or_wait sample_service sample_schedule stranger ''alice'' sample_world
      = (Inr (Some (denial_decision ''Agent is not registered or active'')), w')"
    by (rule sample_immediate) (simp add: denial_decision_def)
  then show "\<forall>d v. evaluate_or_wait sample_service sample_schedule stranger ''alice'' sample_world = (Inr (Some d), v)
      \<longrightarrow> pd_outcome d \<noteq> Allow"
    by (auto simp: denial_decision_def)
qed

text \<open>
  C20: The waiting loop ends: when some turn of it begins at or after the deadline, the loop has
  returned a decision or raised by then, whatever messages came and others did.
\<close>

theorem waiting_ends:
  assumes "p \<in> set ps" and "deadline \<le> pl_time p"
  shows "fst (await_loop S i tid a deadline ps w) \<noteq> Inr None"
  using assms by (rule await_loop_answers)

lemma waiting_ends_witness:
  "fst (await_loop sample_service sample_plain ''hitl-1'' ''alice'' 30 [idle_poll 0, idle_poll 30] (hitl_world PENDING))
     \<noteq> Inr None"
  by (rule waiting_ends [of "idle_poll 30"]) (simp_all add: idle_poll_def)

text \<open>
  C21: At the deadline the waiter gets a timeout and not a decision, and the request that is still
  pending becomes expired with an entry in the log, when the log verifies, the actor has 1 to
  128 characters and the identifier and the hash of the new entry are not taken.
\<close>

theorem deadline_expires_request:
  assumes "deadline \<le> pl_time p" and "find_by_id tid (w_db w) = Inr (Some t)" and "hi_status t = PENDING"
    and "hex_digests (sv_platform S)"
    and "verify_chain (sv_platform S) (audit_hmac_key (sv_settings S)) w = (Inr n, v)"
    and "0 < length a" "length a \<le> 128"
    and "\<forall>q \<in> set (audit_logs (w_db w)). au_id q \<noteq> w_uuid w (w_uuids w)
      \<and> au_entry_hash q \<noteq> au_entry_hash (expiry_entry S tid a w)"
  shows "\<exists>w' t'. await_loop S i tid a deadline (p # ps) w
      = (Inl (ApprovalTimeoutError ''HITL approval timed out''), w')
    \<and> find_by_id tid (w_db w') = Inr (Some t') \<and> hi_status t' = EXPIRED \<and> hi_id t' = hi_id t
    \<and> audit_logs (w_db w') = audit_logs (w_db w) @ [stored_entry (sv_platform S) (expiry_entry S tid a w)]"
proof -
  have "chain_ok (sv_platform S) (audit_hmac_key (sv_settings S)) (log_of (w_db w)) None 1"
    using assms(5) verify_session [OF assms(5)] by (simp add: verify_chain_run [OF assms(4)])
  from expire_transaction_runs [OF this assms(6-8,2,3)] obtain w' where
    run: "expire_transaction S tid a w = (Inr (), w')" and
    log: "audit_logs (w_db w') = audit_logs (w_db w) @ [stored_entry (sv_platform S) (expiry_entry S tid a w)]"
    by blast
  from expire_transaction_expires [OF run assms(2,3)] run log assms(1) show ?thesis
    by (auto simp: bindE_def raise_def)
qed

lemma deadline_expires_request_witness:
  "\<exists>w' t'. await_loop sample_service sample_plain ''hitl-1'' ''alice'' 30 [idle_poll 30] (hitl_world PENDING)
      = (Inl (ApprovalTimeoutError ''HITL approval timed out''), w')
    \<and> find_by_id ''hitl-1'' (w_db w') = Inr (Some t') \<and> hi_status t' = EXPIRED \<and> length (audit_logs (w_db w')) = 1"
proof -
  have "hex_digests (sv_platform sample_service)" by (simp add: sample_service_def sample_platform_ok)
  moreover have logs: "audit_logs (w_db (hitl_world PENDING)) = []" by (simp add: hitl_world_def)
  moreover from calculation have "verify_chain (sv_platform sample_service) (audit_hmac_key (sv_settings sample_service))
      (hitl_world PENDING) = (Inr 0, hitl_world PENDING)"
    by (simp add: verify_chain_run log_of_def)
  ultimately show ?thesis
    using deadline_expires_request [of 30 "idle_poll 30" "''hitl-1''" "hitl_world PENDING" "sample_hitl PENDING"
        sample_service 0 "hitl_world PENDING" "''alice''" sample_plain "[]"]
    by (fastforce simp: idle_poll_def)
qed

text \<open>
  A settlement that returns raised the consumed amount of the agent's budget by exactly the
  requested amount and its version by one, and the consumed amount stays within the limit.
\<close>

theorem settlement_consumes_amount:
  assumes "commit_execution S i a w = (Inr (), w')" and "in_requested_amount i = Some x"
    and "in_currency i = Some c"
  shows "\<exists>b b'. find_row (is_budget (in_agent_id i) c) (budgets (w_db w)) = Inr (Some b)
    \<and> find_row (is_budget (in_agent_id i) c) (budgets (w_db w')) = Inr (Some b')
    \<and> bu_consumed_amount b' = bu_consumed_amount b + x \<and> \<not> bu_limit_amount b' < bu_consumed_amount b'
    \<and> bu_limit_amount b' = bu_limit_amount b \<and> bu_version b' = bu_version b + 1"
  using assms by (rule commit_execution_exact)

lemma settlement_consumes_amount_witness:
  "\<exists>w' b'. commit_execution sample_service (sample_intent (Dec 20 0)) ''alice'' sample_world = (Inr (), w')
     \<and> find_row (is_budget ''agent-1'' ''USD'') (budgets (w_db w')) = Inr (Some b')
     \<and> bu_consumed_amount b' = Dec 0 0 + Dec 20 0"
proof -
  let ?b = "consume sample_budget (Dec 20 0) (Datetime 1700000000000000 True) sample_budget"
  have "fst (commit ''agent-1'' ''USD'' (Dec 20 0) sample_world) = Inr ?b" by code_simp
  from fst_run [OF this] obtain w1 where c: "commit ''agent-1'' ''USD'' (Dec 20 0) sample_world = (Inr ?b, w1)" ..
  from c have w1: "audit_logs (w_db w1) = []" "w_session_ok w1" by (rule commit_Inr; simp)+
  have "\<not> bu_limit_amount ?b - bu_consumed_amount ?b < 0" by code_simp
  then obtain w2 where r: "reset ''agent-1'' ''USD'' (bu_limit_amount ?b - bu_consumed_amount ?b) w1 = (Inr (), w2)"
    by (simp add: reset_def redis_set_def bindE_def tick_def modify_s_def)
  note s = same_sessionD [OF quiet_reset r]
  have "\<exists>q w'. audit_append sample_service ''execution_completed'' ''alice''
      (JObj [(''intent'', intent_json (sample_intent (Dec 20 0)))]) w2 = (Inr q, w')"
    by (rule append_empty) (use w1 s in simp_all)
  then obtain q w3 where a: "audit_append sample_service ''execution_completed'' ''alice''
      (JObj [(''intent'', intent_json (sample_intent (Dec 20 0)))]) w2 = (Inr q, w3)" by blast
  have "commit_execution sample_service (sample_intent (Dec 20 0)) ''alice'' sample_world = (Inr (), w3)"
    unfolding commit_execution_def session_begin_Inr sample_world_session
    using c r a by (simp add: sample_intent_def bindE_def ret_def)
  from settlement_consumes_amount [OF this, of "Dec 20 0" "''USD''"] this
  show ?thesis by (auto simp: sample_intent_def is_budget_def sample_database_def find_row_def
      scalar_one_or_none_def sample_budget_def)
qed

text \<open>
  A settlement is all or nothing: when it raises, the database is what it was before, so no
  amount is consumed without the audit entry of the completed execution.  (The tool has run.)
\<close>

theorem settlement_atomic:
  assumes "commit_execution S i a w = (Inl e, w')"
  shows "w_db w' = w_db w"
  using assms by (rule commit_execution_atomic)

lemma settlement_atomic_witness:
  "\<exists>e w'. commit_execution sample_service (sample_intent (Dec 500 0)) ''alice'' sample_world = (Inl e, w')
     \<and> w_db w' = sample_database"
proof -
  have "fst (commit ''agent-1'' ''USD'' (Dec 500 0) sample_world) = Inl (GovernanceError ''Budget cap exceeded during commit'')"
    by code_simp
  from fst_run [OF this] obtain w1 where
    "commit ''agent-1'' ''USD'' (Dec 500 0) sample_world = (Inl (GovernanceError ''Budget cap exceeded during commit''), w1)" ..
  then have "\<exists>e w'. commit_execution sample_service (sample_intent (Dec 500 0)) ''alice'' sample_world = (Inl e, w')"
    unfolding commit_execution_def session_begin_def sample_world_session
    by (simp add: sample_intent_def bindE_def)
  then obtain e w' where run: "commit_execution sample_service (sample_intent (Dec 500 0)) ''alice'' sample_world = (Inl e, w')"
    by blast
  from settlement_atomic [OF run] run show ?thesis by auto
qed

text \<open>
  A tool that raises has its exception raised again, and the recorded failure leaves every
  budget as the tool left it.
\<close>

theorem failed_tool_consumes_nothing:
  assumes "tool w = (Inl (ty, s), w1)" and "record_execution_failure S i a ty s w1 = (Inr (), w')"
  shows "run_tool S i a tool w = (Inl (ToolError ty s), w') \<and> budgets (w_db w') = budgets (w_db w1)"
  using assms by (rule run_tool_failure)

lemma failed_tool_consumes_nothing_witness:
  "\<exists>w'. run_tool sample_service sample_plain ''alice'' (\<lambda>w. (Inl (''ValueError'', ''bad iban''), w)) sample_world
      = (Inl (ToolError ''ValueError'' ''bad iban''), w') \<and> budgets (w_db w') = [sample_budget]"
proof -
  have "\<exists>q w'. audit_append sample_service ''execution_failed'' ''alice''
      (JObj [(''intent'', intent_json sample_plain), (''error_type'', JStr ''ValueError''),
         (''error'', JStr (take 1000 ''bad iban''))]) sample_world = (Inr q, w')"
    by (rule append_empty) simp_all
  then obtain q w3 where a: "audit_append sample_service ''execution_failed'' ''alice''
      (JObj [(''intent'', intent_json sample_plain), (''error_type'', JStr ''ValueError''),
         (''error'', JStr (take 1000 ''bad iban''))]) sample_world = (Inr q, w3)"
    by blast
  then have "record_execution_failure sample_service sample_plain ''alice'' ''ValueError'' ''bad iban'' sample_world = (Inr (), w3)"
    unfolding record_execution_failure_def session_begin_Inr sample_world_session
    by (simp add: sample_plain_def bindE_def ret_def)
  from failed_tool_consumes_nothing [of "\<lambda>w. (Inl (''ValueError'', ''bad iban''), w)", OF refl this]
  show ?thesis by (auto simp: sample_database_def)
qed

text \<open>
  C40: The recovery from a lost race never works: when another session commits a request with the
  same key between the lookup and the insert, the lookup in the handler runs on a session whose
  flush has failed, and the caller gets that error and not the other request.
\<close>

theorem lost_race_raises:
  assumes "w_session_ok w" and "find_by_key (in_idempotency_key i) (w_db w) = Inr None"
    and "find_by_key (in_idempotency_key i) (race (w_db w)) = Inr (Some t)"
  shows "fst (create_or_get_hitl S race i d w) = Inl PendingRollbackError"
  using assms by (rule create_or_get_race)

lemma lost_race_raises_witness:
  "fst (create_or_get_hitl sample_service (\<lambda>_. w_db (hitl_world PENDING)) sample_plain sample_allow sample_world)
     = Inl PendingRollbackError"
  by (rule lost_race_raises)
    (simp_all add: sample_plain_def sample_intent_def find_by_key_def [of _ sample_database] find_row_def
      scalar_one_or_none_def)

text \<open>
  C34: Approving a payment that exceeds what the budget row leaves does not help: the answer to the
  waiter is a denial.
\<close>

theorem approval_cannot_exceed_budget:
  assumes "resolution_decision i tid APPROVED w = (Inr d, w')" and "in_requested_amount i = Some x"
    and "in_currency i = Some c" and "find_row (is_budget (in_agent_id i) c) (budgets (w_db w)) = Inr (Some b)"
    and "bu_active b" and "bu_limit_amount b - bu_consumed_amount b < x"
  shows "pd_outcome d = Deny"
  using assms by (rule resolution_over_budget)

lemma approval_cannot_exceed_budget_witness:
  "\<exists>d w'. resolution_decision (sample_intent (Dec 500 0)) ''hitl-1'' APPROVED sample_world = (Inr d, w') \<and> pd_outcome d = Deny"
proof -
  have "\<not> isl (fst (resolution_decision (sample_intent (Dec 500 0)) ''hitl-1'' APPROVED sample_world))" by code_simp
  then obtain d w' where run: "resolution_decision (sample_intent (Dec 500 0)) ''hitl-1'' APPROVED sample_world = (Inr d, w')"
    using run_returns by blast
  have "find_row (is_budget ''agent-1'' ''USD'') (budgets (w_db sample_world)) = Inr (Some sample_budget)"
    "bu_active sample_budget" "bu_limit_amount sample_budget - bu_consumed_amount sample_budget < Dec 500 0"
    by code_simp+
  then have "pd_outcome d = Deny"
    using approval_cannot_exceed_budget [OF run, of "Dec 500 0" "''USD''" sample_budget] by (simp add: sample_intent_def)
  with run show ?thesis by blast
qed

end
