(* ===== verification/Router.thy ===== *)
theory Router
  imports Auth Interceptor
begin

text \<open>
  The endpoints of \<open>marcel/api/router.py\<close>.  An endpoint takes the credentials of the request
  and the validated body, runs its dependencies first, and answers with a response model or
  raises.
\<close>

subsection \<open>Responses\<close>

record agent_response =
  ar_id :: string
  ar_display_name :: string
  ar_tenant_id :: string
  ar_allowed_actions :: "string list"
  ar_risk_tier :: string
  ar_active :: bool
  ar_metadata :: json
  ar_created_at :: datetime
  ar_updated_at :: datetime

definition agent_response_of :: "agent \<Rightarrow> agent_response" where
  "agent_response_of a = \<lparr>ar_id = model_strip (ag_id a), ar_display_name = model_strip (ag_display_name a),
     ar_tenant_id = model_strip (ag_tenant_id a), ar_allowed_actions = map model_strip (ag_allowed_actions a),
     ar_risk_tier = model_strip (ag_risk_tier a), ar_active = ag_active a, ar_metadata = ag_metadata_json a,
     ar_created_at = ag_created_at a, ar_updated_at = ag_updated_at a\<rparr>"

record budget_response =
  br_agent_id :: string
  br_currency :: string
  br_limit_amount :: dec
  br_consumed_amount :: dec
  br_remaining_amount :: dec
  br_active :: bool
  br_version :: int
  br_updated_at :: datetime

definition budget_response_of :: "budget \<Rightarrow> budget_response" where
  "budget_response_of b = \<lparr>br_agent_id = model_strip (bu_agent_id b), br_currency = model_strip (bu_currency b),
     br_limit_amount = bu_limit_amount b, br_consumed_amount = bu_consumed_amount b,
     br_remaining_amount = dec_max 0 (bu_limit_amount b - bu_consumed_amount b),
     br_active = bu_active b, br_version = bu_version b, br_updated_at = bu_updated_at b\<rparr>"

record policy_response =
  pr_id :: string
  pr_name :: string
  pr_version :: int
  pr_enabled :: bool
  pr_priority :: int
  pr_definition :: json
  pr_created_at :: datetime
  pr_updated_at :: datetime

definition policy_response_of :: "policy \<Rightarrow> policy_response" where
  "policy_response_of p = \<lparr>pr_id = model_strip (po_id p), pr_name = model_strip (po_name p),
     pr_version = po_version p, pr_enabled = po_enabled p, pr_priority = po_priority p,
     pr_definition = po_definition p, pr_created_at = po_created_at p, pr_updated_at = po_updated_at p\<rparr>"

record hitl_response =
  hp_id :: string
  hp_idempotency_key :: string
  hp_agent_id :: string
  hp_action :: string
  hp_requested_amount :: "dec option"
  hp_currency :: "string option"
  hp_risk_score :: int
  hp_reasons :: "string list"
  hp_status :: string
  hp_reviewer_id :: "string option"
  hp_reviewer_comment :: "string option"
  hp_expires_at :: datetime
  hp_resolved_at :: "datetime option"
  hp_created_at :: datetime

definition hitl_response_of :: "hitl_transaction \<Rightarrow> hitl_response" where
  "hitl_response_of t = \<lparr>hp_id = model_strip (hi_id t), hp_idempotency_key = model_strip (hi_idempotency_key t),
     hp_agent_id = model_strip (hi_agent_id t), hp_action = model_strip (hi_action t),
     hp_requested_amount = hi_requested_amount t, hp_currency = map_option model_strip (hi_currency t),
     hp_risk_score = hi_risk_score t, hp_reasons = map model_strip (hi_reasons t),
     hp_status = hitl_status_value (hi_status t), hp_reviewer_id = map_option model_strip (hi_reviewer_id t),
     hp_reviewer_comment = map_option model_strip (hi_reviewer_comment t), hp_expires_at = hi_expires_at t,
     hp_resolved_at = hi_resolved_at t, hp_created_at = hi_created_at t\<rparr>"

record token_response =
  tk_access_token :: string
  tk_token_type :: string
  tk_expires_in :: int

record health_response =
  he_status :: string
  he_database :: string
  he_redis :: string

subsection \<open>Endpoints\<close>

definition issue_token :: "jwt_library \<Rightarrow> settings \<Rightarrow> token_request \<Rightarrow> token_response op" where
  "issue_token J settings payload =
     bindE (create_access_token J settings (tr_subject payload) (tr_roles payload)) (\<lambda>token.
     ret \<lparr>tk_access_token = model_strip token, tk_token_type = ''bearer'',
       tk_expires_in = jwt_expiry_seconds settings\<rparr>)"

text \<open>\<open>ping\<close> and \<open>select_1\<close> stand for the answers of Redis and of the database to the two probes.\<close>

definition health :: "unit op \<Rightarrow> (database \<Rightarrow> int result) \<Rightarrow> health_response op" where
  "health ping select_1 =
     bindE ping (\<lambda>_.
     bindE (with_session (execute select_1)) (\<lambda>_.
     ret \<lparr>he_status = ''ok'', he_database = ''ok'', he_redis = ''ok''\<rparr>))"

definition new_agent :: "agent_create \<Rightarrow> datetime \<Rightarrow> agent" where
  "new_agent payload now = \<lparr>ag_id = ac_id payload, ag_display_name = ac_display_name payload,
     ag_tenant_id = ac_tenant_id payload, ag_allowed_actions = ac_allowed_actions payload,
     ag_risk_tier = ac_risk_tier payload, ag_active = True, ag_metadata_json = JObj (ac_metadata payload),
     ag_created_at = now, ag_updated_at = now\<rparr>"

definition agent_clash :: "agent \<Rightarrow> database \<Rightarrow> bool" where
  "agent_clash a db = list_ex (\<lambda>b. ag_id b = ag_id a) (agents db)"

definition stored_agent :: "platform \<Rightarrow> agent \<Rightarrow> agent" where
  "stored_agent P a = a\<lparr>ag_metadata_json := stored_json P (ag_metadata_json a)\<rparr>"

text \<open>\<open>except IntegrityError: raise HTTPException(409, ...)\<close>\<close>

definition conflict_409 :: "string \<Rightarrow> unit op \<Rightarrow> unit op" where
  "conflict_409 detail m =
     catchE m (\<lambda>e. if e = IntegrityError then raise (HTTPException 409 detail) else raise e)"

definition register_agent :: "jwt_library \<Rightarrow> service \<Rightarrow> credentials \<Rightarrow> agent_create \<Rightarrow> agent_response op" where
  "register_agent J S credentials payload =
     bindE (require_role J (sv_settings S) [''admin'', ''operator''] credentials) (\<lambda>principal.
     bindE now_utc (\<lambda>now.
       let a = new_agent payload now
       in bindE (session_begin
            (bindE (conflict_409 ''Agent ID already exists'' (add_and_flush (agent_clash a)
                (\<lambda>db. db\<lparr>agents := agents db @ [stored_agent (sv_platform S) a]\<rparr>))) (\<lambda>_.
             audit_append S ''agent_registered'' (actor principal)
               (JObj [(''agent_id'', JStr (ag_id a))])))) (\<lambda>_.
          ret (agent_response_of a))))"

definition budget_clash :: "budget \<Rightarrow> database \<Rightarrow> bool" where
  "budget_clash b db = list_ex (\<lambda>r. is_budget (bu_agent_id b) (bu_currency b) r \<or> bu_id r = bu_id b) (budgets db)"

definition new_budget :: "string \<Rightarrow> budget_upsert \<Rightarrow> datetime \<Rightarrow> string \<Rightarrow> budget" where
  "new_budget agent_id payload now i = \<lparr>bu_id = i, bu_agent_id = agent_id, bu_currency = bp_currency payload,
     bu_limit_amount = bp_limit_amount payload, bu_consumed_amount = 0, bu_version = 1, bu_active = True,
     bu_created_at = now, bu_updated_at = now\<rparr>"

definition set_limit :: "budget_upsert \<Rightarrow> datetime \<Rightarrow> budget \<Rightarrow> budget" where
  "set_limit payload now b = b\<lparr>bu_limit_amount := bp_limit_amount payload,
     bu_version := bu_version b + 1, bu_updated_at := now\<rparr>"

text \<open>The row after the upsert: inserted, or updated in place.\<close>

definition upsert_row :: "string \<Rightarrow> budget_upsert \<Rightarrow> datetime \<Rightarrow> budget op" where
  "upsert_row agent_id payload now =
     bindE (get_budget agent_id (bp_currency payload)) (\<lambda>found.
     case found of
       None \<Rightarrow> bindE uuid4 (\<lambda>i.
         let b = new_budget agent_id payload now i
         in bindE (add_and_flush (budget_clash b) (\<lambda>db. db\<lparr>budgets := budgets db @ [b]\<rparr>)) (\<lambda>_. ret b))
     | Some b \<Rightarrow>
         if bp_limit_amount payload < bu_consumed_amount b
         then raise (HTTPException 422 ''Budget limit cannot be lower than already consumed amount'')
         else bindE (update_db (\<lambda>db. db\<lparr>budgets :=
                  update_rows (\<lambda>r. bu_id r = bu_id b) (set_limit payload now) (budgets db)\<rparr>))
                (\<lambda>_. ret (set_limit payload now b)))"

definition upsert_budget :: "jwt_library \<Rightarrow> service \<Rightarrow> credentials \<Rightarrow> string \<Rightarrow> budget_upsert \<Rightarrow> budget_response op" where
  "upsert_budget J S credentials agent_id payload =
     bindE (require_role J (sv_settings S) [''admin'', ''finance''] credentials) (\<lambda>principal.
     bindE now_utc (\<lambda>now.
     bindE (session_begin
       (bindE (execute (\<lambda>db. find_agent db agent_id)) (\<lambda>found.
        if found = None then raise (HTTPException 404 ''Agent not found'')
        else bindE (upsert_row agent_id payload now) (\<lambda>b.
          bindE (reset agent_id (bp_currency payload) (bu_limit_amount b - bu_consumed_amount b)) (\<lambda>_.
          bindE (audit_append S ''budget_updated'' (actor principal)
            (JObj [(''agent_id'', JStr agent_id), (''currency'', JStr (bp_currency payload)),
               (''limit_amount'', JStr (dec_str (bp_limit_amount payload)))])) (\<lambda>_. ret b))))))
       (\<lambda>b. ret (budget_response_of b))))"

definition new_policy :: "policy_create \<Rightarrow> datetime \<Rightarrow> string \<Rightarrow> policy" where
  "new_policy payload now i = \<lparr>po_id = i, po_name = pc_name payload, po_version = pc_version payload,
     po_enabled = pc_enabled payload, po_priority = pc_priority payload,
     po_definition = JObj (pc_definition payload), po_created_at = now, po_updated_at = now\<rparr>"

definition policy_clash :: "policy \<Rightarrow> database \<Rightarrow> bool" where
  "policy_clash p db = list_ex (\<lambda>q. (po_name q = po_name p \<and> po_version q = po_version p) \<or> po_id q = po_id p)
     (policies db)"

definition stored_policy :: "platform \<Rightarrow> policy \<Rightarrow> policy" where
  "stored_policy P p = p\<lparr>po_definition := stored_json P (po_definition p)\<rparr>"

definition create_policy :: "jwt_library \<Rightarrow> service \<Rightarrow> credentials \<Rightarrow> policy_create \<Rightarrow> policy_response op" where
  "create_policy J S credentials payload =
     bindE (require_role J (sv_settings S) [''admin'', ''operator''] credentials) (\<lambda>principal.
     bindE now_utc (\<lambda>now.
     bindE (session_begin
       (bindE uuid4 (\<lambda>i.
          let p = new_policy payload now i
          in bindE (conflict_409 ''Policy name and version already exist''
               (bindE (integer_column (sv_platform S) (po_version p)) (\<lambda>_.
                add_and_flush (policy_clash p)
                  (\<lambda>db. db\<lparr>policies := policies db @ [stored_policy (sv_platform S) p]\<rparr>)))) (\<lambda>_.
             bindE (audit_append S ''policy_created'' (actor principal)
               (JObj [(''policy_id'', JStr (po_id p)), (''name'', JStr (po_name p)),
                  (''version'', JInt (po_version p))])) (\<lambda>_. ret p)))))
       (\<lambda>p. ret (policy_response_of p))))"

definition evaluate_intent :: "jwt_library \<Rightarrow> service \<Rightarrow> schedule \<Rightarrow> credentials \<Rightarrow> execution_intent
    \<Rightarrow> policy_decision option op" where
  "evaluate_intent J S sched credentials payload =
     bindE (require_principal J (sv_settings S) credentials) (\<lambda>principal.
     catchE (evaluate_or_wait S sched payload (actor principal)) (\<lambda>e.
       case e of ApprovalRejectedError s \<Rightarrow> raise (HTTPException 403 s)
       | ApprovalTimeoutError s \<Rightarrow> raise (HTTPException 408 s)
       | _ \<Rightarrow> raise e))"

definition get_hitl :: "jwt_library \<Rightarrow> service \<Rightarrow> credentials \<Rightarrow> string \<Rightarrow> hitl_response op" where
  "get_hitl J S credentials transaction_id =
     bindE (require_role J (sv_settings S) [''admin'', ''operator'', ''approver''] credentials) (\<lambda>_.
     with_session (bindE (execute (find_by_id transaction_id)) (\<lambda>found.
       case found of None \<Rightarrow> raise (HTTPException 404 ''HITL transaction not found'')
       | Some t \<Rightarrow> ret (hitl_response_of t))))"

text \<open>The row a resolution writes.\<close>

definition resolved :: "hitl_resolution \<Rightarrow> string \<Rightarrow> datetime \<Rightarrow> hitl_transaction \<Rightarrow> hitl_transaction" where
  "resolved payload reviewer now t = t\<lparr>
     hi_status := (if hr_decision payload = ''approved'' then APPROVED else REJECTED),
     hi_reviewer_id := Some reviewer, hi_reviewer_comment := hr_comment payload,
     hi_resolved_at := Some now, hi_updated_at := now\<rparr>"

definition resolution_transaction :: "service \<Rightarrow> string \<Rightarrow> hitl_resolution \<Rightarrow> string \<Rightarrow> datetime \<Rightarrow> hitl_response op" where
  "resolution_transaction S transaction_id payload reviewer now =
     session_begin (bindE (execute (find_by_id transaction_id)) (\<lambda>found.
       case found of None \<Rightarrow> raise (HTTPException 404 ''HITL transaction not found'')
       | Some t \<Rightarrow>
           if hi_status t \<noteq> PENDING
           then raise (HTTPException 409 (''HITL transaction is already '' @ hitl_status_value (hi_status t)))
           else bindE (lift_result (datetime_le (hi_expires_at t) now)) (\<lambda>expired.
             if expired
             then bindE (update_db (update_hitl transaction_id (\<lambda>t. t\<lparr>hi_status := EXPIRED,
                    hi_resolved_at := Some (stored_time (sv_platform S) now),
                    hi_updated_at := stored_time (sv_platform S) now\<rparr>))) (\<lambda>_.
                  raise (HTTPException 409 ''HITL transaction has expired''))
             else bindE (update_db (update_hitl transaction_id
                    (resolved payload reviewer (stored_time (sv_platform S) now)))) (\<lambda>_.
                  bindE (audit_append S ''hitl_resolved'' reviewer
                    (JObj [(''hitl_transaction_id'', JStr (hi_id t)), (''decision'', JStr (hr_decision payload)),
                       (''comment'', opt_json JStr (hr_comment payload))])) (\<lambda>_.
                  ret (hitl_response_of (resolved payload reviewer now t)))))))"

definition resolve_hitl :: "jwt_library \<Rightarrow> service \<Rightarrow> credentials \<Rightarrow> string \<Rightarrow> hitl_resolution \<Rightarrow> hitl_response op" where
  "resolve_hitl J S credentials transaction_id payload =
     bindE (require_role J (sv_settings S) [''admin'', ''approver''] credentials) (\<lambda>principal.
     bindE now_utc (\<lambda>now.
     bindE (resolution_transaction S transaction_id payload (actor principal) now) (\<lambda>response.
     bindE (redis_publish (''marcel:hitl:resolution:'' @ transaction_id) (hr_decision payload)) (\<lambda>_.
     ret response))))"

end
