(* ===== verification/Interceptor_Frame.thy ===== *)
theory Interceptor_Frame
  imports Interceptor
begin

text \<open>
  What the interceptor does to the database, for any relation on databases.  The locale asks for
  the three updates the waiting and logging parts make (an audit entry, a new request, an
  expiry) to be along the relation; then every method up to the settlement is.  One instance
  gives the refinement of the service by its steps, another that evaluation and waiting leave
  the budgets alone.
\<close>

text \<open>The first transaction after its audit entry, and what follows it.\<close>

definition evaluation_rest :: "service \<Rightarrow> (database \<Rightarrow> database) \<Rightarrow> execution_intent \<Rightarrow> policy_decision
    \<Rightarrow> (policy_decision + policy_decision) op" where
  "evaluation_rest S race i decision =
     (case pd_outcome decision of
         Deny \<Rightarrow> ret (Inl decision)
       | Allow \<Rightarrow>
           (case (in_requested_amount i, in_currency i) of
              (Some amount, Some currency) \<Rightarrow>
                bindE (reserve (in_agent_id i) currency amount) (\<lambda>(reserved, left).
                  ret (Inl (if reserved then decision else reservation_failed decision left)))
            | _ \<Rightarrow> ret (Inl decision))
       | RequireApproval \<Rightarrow>
           bindE (create_or_get_hitl S race i decision) (\<lambda>t.
             ret (Inr (decision\<lparr>pd_hitl_transaction_id := Some (hi_id t)\<rparr>))))"

definition evaluate_tail :: "service \<Rightarrow> schedule \<Rightarrow> execution_intent \<Rightarrow> string
    \<Rightarrow> policy_decision + policy_decision \<Rightarrow> policy_decision option op" where
  "evaluate_tail S sched i actor_id r =
     (case r of Inl decision \<Rightarrow> ret (Some decision)
     | Inr decision \<Rightarrow>
         (case pd_hitl_transaction_id decision of
            Some tid \<Rightarrow>
              if pd_outcome decision = RequireApproval \<and> tid \<noteq> []
              then bindE (publish_hitl_request tid) (\<lambda>_.
                await_resolution S i tid actor_id (sc_start sched) (sc_polls sched))
              else ret (Some decision)
          | None \<Rightarrow> ret (Some decision)))"

text \<open>What other sessions do in a schedule is along a relation.\<close>

definition others_along :: "(database \<Rightarrow> database \<Rightarrow> bool) \<Rightarrow> schedule \<Rightarrow> bool" where
  "others_along Q sched \<longleftrightarrow> (\<forall>d. Q d (sc_race sched d))
     \<and> (\<forall>p \<in> set (sc_polls sched). \<forall>w. Q (w_db w) (w_db (pl_others p w)))"

lemma new_hitl_status [simp]: "hi_status (new_hitl s i d now x) = PENDING"
  by (simp add: new_hitl_def)

locale interceptor_relation = database_relation Q for Q :: "database \<Rightarrow> database \<Rightarrow> bool" +
  fixes S :: service
  assumes Q_audit: "\<lbrakk>e \<noteq> []; length e \<le> 128; a \<noteq> []; length a \<le> 128; aware t;
      r = new_entry (sv_platform S) (audit_hmac_key (sv_settings S)) e a p (last_entry (audit_logs d)) t i;
      \<not> audit_clash r d\<rbrakk>
    \<Longrightarrow> Q d (d\<lparr>audit_logs := audit_logs d @ [stored_entry (sv_platform S) r]\<rparr>)"
  and Q_request: "\<lbrakk>\<not> hitl_clash h d; hi_status h = PENDING\<rbrakk>
    \<Longrightarrow> Q d (d\<lparr>hitl_transactions := hitl_transactions d @ [stored_hitl (sv_platform S) h]\<rparr>)"
  and Q_expire: "\<lbrakk>find_by_id i d = Inr (Some h); hi_status h = PENDING\<rbrakk>
    \<Longrightarrow> Q d (update_hitl i (\<lambda>t. t\<lparr>hi_status := EXPIRED, hi_resolved_at := Some now,
          hi_updated_at := now\<rparr>) d)"
begin

lemma inner_audit: "obeys inner (audit_append S e a p)"
  by (rule obeys_append) (blast intro: Q_audit)

lemmas inner_intros = obeys_store inner_audit
  obeys_quiet [OF quiet_reserve] obeys_quiet [OF quiet_release]
  obeys_quiet [OF quiet_reset] obeys_quiet [OF quiet_evaluate]
  obeys_quiet [OF quiet_get_budget]

lemma update_pending:
  assumes "\<And>d t. find_by_id i d = Inr (Some t) \<Longrightarrow> hi_status t = PENDING \<Longrightarrow> Q d (update_hitl i f d)"
  shows "find_by_id i (w_db w) = Inr (Some t) \<Longrightarrow> hi_status t = PENDING \<Longrightarrow> w_db v = w_db w
    \<Longrightarrow> (\<And>x. obeys inner (k x)) \<Longrightarrow> inner v (snd (bindE (update_db (update_hitl i f)) k v))"
  using assms by (intro update_from) auto

lemma outer_expire_transaction: "obeys outer (expire_transaction S i actor_id)"
  unfolding expire_transaction_def
proof (intro obeys_session_begin obeys_execute_bind)
  fix found and w :: world
  assume found: "find_by_id i (w_db w) = Inr found"
  show "inner w (snd ((case found of None \<Rightarrow> ret ()
       | Some t \<Rightarrow>
           if hi_status t \<noteq> PENDING then ret ()
           else bindE now_utc (\<lambda>now.
             bindE (update_db (update_hitl i (\<lambda>t. t\<lparr>hi_status := EXPIRED,
                 hi_resolved_at := Some (stored_time (sv_platform S) now),
                 hi_updated_at := stored_time (sv_platform S) now\<rparr>))) (\<lambda>_.
             bindE (audit_append S ''hitl_expired'' actor_id
               (JObj [(''hitl_transaction_id'', JStr i)])) (\<lambda>_. ret ())))) w))"
  proof (cases "\<exists>t. found = Some t \<and> hi_status t = PENDING")
    case False
    then show ?thesis by (auto intro: obeys_from [OF inside.obeys_ret] split: option.split)
  next
    case True
    then obtain t where t: "found = Some t" "hi_status t = PENDING" by blast
    have "inner w (snd (bindE now_utc (\<lambda>now.
             bindE (update_db (update_hitl i (\<lambda>t. t\<lparr>hi_status := EXPIRED,
                 hi_resolved_at := Some (stored_time (sv_platform S) now),
                 hi_updated_at := stored_time (sv_platform S) now\<rparr>))) (\<lambda>_.
             bindE (audit_append S ''hitl_expired'' actor_id
               (JObj [(''hitl_transaction_id'', JStr i)])) (\<lambda>_. ret ()))) w))"
      by (intro quiet_from quiet_now update_pending [OF _ found [unfolded t] t(2)] inner_intros)
        (blast intro: Q_expire)
    then show ?thesis using t by simp
  qed
qed

lemma inner_request:
  "hi_status t = PENDING \<Longrightarrow> obeys inner (add_and_flush (hitl_clash t)
     (\<lambda>db. db\<lparr>hitl_transactions := hitl_transactions db @ [stored_hitl (sv_platform S) t]\<rparr>))"
  by (intro obeys_add_and_flush) (blast intro: Q_request)

lemma inner_create_or_get_hitl:
  assumes "\<And>d. Q d (race d)"
  shows "obeys inner (create_or_get_hitl S race i d)"
  unfolding create_or_get_hitl_def Let_def
  by (intro inner_intros obeys_others_commit inner_request assms new_hitl_status)

lemma outer_get_transaction_status: "obeys outer (get_transaction_status i)"
  unfolding get_transaction_status_def by (intro obeys_with_session inner_intros)

lemma outer_resolution_decision: "obeys outer (resolution_decision i tid st)"
  unfolding resolution_decision_def approval_granted_def
  by (auto intro!: obeys_outer inner_intros simp: case_prod_beta split: option.split)

lemma outer_publish: "obeys outer (publish_hitl_request i)"
  unfolding publish_hitl_request_def by (intro inner_outer inner_intros)

lemma outer_others:
  "(\<And>w. Q (w_db w) (w_db (f w))) \<Longrightarrow> obeys outer (others_run f)"
  by (simp add: obeys_def others_run_def modify_s_def outer_def)

lemma outer_await_loop:
  "\<forall>p \<in> set ps. \<forall>w. Q (w_db w) (w_db (pl_others p w)) \<Longrightarrow>
    obeys outer (await_loop S i tid actor_id deadline ps)"
proof (induction ps)
  case Nil
  then show ?case by (simp add: outside.obeys_ret)
next
  case (Cons p ps)
  then show ?case
    by (auto intro!: obeys_outer outer_expire_transaction outer_get_transaction_status
        outer_resolution_decision outer_others)
qed

lemma inner_evaluation_rest:
  assumes "\<And>d. Q d (race d)"
  shows "obeys inner (evaluation_rest S race i decision)"
  unfolding evaluation_rest_def
  by (cases "pd_outcome decision"; cases "in_requested_amount i"; cases "in_currency i")
    (auto simp: case_prod_beta intro!: inner_intros inner_create_or_get_hitl assms)

lemma outer_evaluation_transaction:
  assumes "\<And>d. Q d (race d)"
  shows "obeys outer (evaluation_transaction S race i actor_id)"
  unfolding evaluation_transaction_def evaluation_rest_def [symmetric]
  by (intro obeys_session_begin inner_intros inner_evaluation_rest assms)

lemma outer_evaluate_tail:
  assumes "others_along Q sched"
  shows "obeys outer (evaluate_tail S sched i actor_id r)"
  using assms
  by (auto simp: evaluate_tail_def await_resolution_def others_along_def split: sum.split option.split
      intro!: obeys_outer outer_publish outer_await_loop)

lemma outer_evaluate_or_wait:
  assumes "others_along Q sched"
  shows "obeys outer (evaluate_or_wait S sched i actor_id)"
  unfolding evaluate_or_wait_def evaluate_tail_def [symmetric] using assms
  by (intro outside.obeys_bind outer_evaluation_transaction outer_evaluate_tail)
    (simp_all add: others_along_def)

lemma outer_record_execution_failure: "obeys outer (record_execution_failure S i actor_id ty s)"
proof -
  have "obeys inner (case (in_requested_amount i, in_currency i) of
          (Some amount, Some currency) \<Rightarrow> release (in_agent_id i) currency amount
        | _ \<Rightarrow> ret ())"
    by (auto split: option.split intro!: inner_intros)
  then show ?thesis
    unfolding record_execution_failure_def by (intro obeys_session_begin inner_intros)
qed

end

end
