(* ===== verification/Service_Steps.thy ===== *)
theory Service_Steps
  imports Router Interceptor_Frame
begin

text \<open>
  The service as a transition system on its database.  \<open>db_step\<close> lists every change the
  service ever makes to a table, with the guard under which the code makes it.  Every
  method of the interceptor and every endpoint moves the committed database along a sequence of
  these steps (the refinement lemmas), so what holds along \<open>db_step\<close> holds for the service,
  whatever the interleaving of its transactions.
\<close>

subsection \<open>The steps\<close>

definition amount_checked :: "execution_intent \<Rightarrow> bool" where
  "amount_checked i \<longleftrightarrow> (\<forall>x. in_requested_amount i = Some x \<longrightarrow> amount_field x = Inr x)"

inductive db_step :: "service \<Rightarrow> database \<Rightarrow> database \<Rightarrow> bool" for S where
  audit_appended:
    "\<lbrakk>e \<noteq> []; length e \<le> 128; a \<noteq> []; length a \<le> 128; aware t;
      r = new_entry (sv_platform S) (audit_hmac_key (sv_settings S)) e a p (last_entry (audit_logs d)) t i;
      \<not> audit_clash r d\<rbrakk>
    \<Longrightarrow> db_step S d (d\<lparr>audit_logs := audit_logs d @ [stored_entry (sv_platform S) r]\<rparr>)"
| hitl_requested:
    "\<lbrakk>\<not> hitl_clash t d; hi_status t = PENDING\<rbrakk>
    \<Longrightarrow> db_step S d (d\<lparr>hitl_transactions := hitl_transactions d @ [stored_hitl (sv_platform S) t]\<rparr>)"
| hitl_expired:
    "\<lbrakk>find_by_id i d = Inr (Some t); hi_status t = PENDING\<rbrakk>
    \<Longrightarrow> db_step S d (update_hitl i (\<lambda>t. t\<lparr>hi_status := EXPIRED, hi_resolved_at := Some now,
          hi_updated_at := now\<rparr>) d)"
| hitl_resolved:
    "\<lbrakk>find_by_id i d = Inr (Some t); hi_status t = PENDING; datetime_le (hi_expires_at t) now = Inr False\<rbrakk>
    \<Longrightarrow> db_step S d (update_hitl i (resolved payload reviewer (stored_time (sv_platform S) now)) d)"
| budget_committed:
    "\<lbrakk>find_row (is_budget a c) (budgets d) = Inr (Some b); bu_active b; amount_field x = Inr x;
      \<not> bu_limit_amount b < bu_consumed_amount b + x\<rbrakk>
    \<Longrightarrow> db_step S d (d\<lparr>budgets := update_rows (\<lambda>r. bu_id r = bu_id b) (consume b x t) (budgets d)\<rparr>)"
| budget_created:
    "\<lbrakk>amount_field (bp_limit_amount payload) = Inr (bp_limit_amount payload);
      \<not> budget_clash (new_budget a payload t i) d\<rbrakk>
    \<Longrightarrow> db_step S d (d\<lparr>budgets := budgets d @ [new_budget a payload t i]\<rparr>)"
| limit_set:
    "\<lbrakk>find_row (is_budget a c) (budgets d) = Inr (Some b);
      amount_field (bp_limit_amount payload) = Inr (bp_limit_amount payload);
      \<not> bp_limit_amount payload < bu_consumed_amount b\<rbrakk>
    \<Longrightarrow> db_step S d (d\<lparr>budgets := update_rows (\<lambda>r. bu_id r = bu_id b) (set_limit payload t) (budgets d)\<rparr>)"
| agent_registered:
    "\<not> agent_clash a d \<Longrightarrow> db_step S d (d\<lparr>agents := agents d @ [stored_agent (sv_platform S) a]\<rparr>)"
| policy_created:
    "\<not> policy_clash p d \<Longrightarrow> db_step S d (d\<lparr>policies := policies d @ [stored_policy (sv_platform S) p]\<rparr>)"

inductive_cases db_stepE: "db_step S d e"

abbreviation db_steps :: "service \<Rightarrow> database \<Rightarrow> database \<Rightarrow> bool" where
  "db_steps S \<equiv> (db_step S)\<^sup>*\<^sup>*"

lemma db_stepsI: "db_step S d e \<Longrightarrow> db_steps S d e"
  by (rule r_into_rtranclp)

interpretation steps: interceptor_relation "db_steps S" S for S
  by unfold_locales
    (auto intro: rtranclp_trans audit_appended hitl_requested hitl_expired)

subsection \<open>Refinement: the interceptor\<close>

text \<open>What others do meanwhile is done by other instances of the service.\<close>

abbreviation others_ok :: "service \<Rightarrow> schedule \<Rightarrow> bool" where
  "others_ok S \<equiv> others_along (db_steps S)"

lemmas step_intros = steps.inner_intros

lemma step_commit: "amount_field x = Inr x \<Longrightarrow> obeys (steps.inner S) (commit a c x)"
  by (rule steps.obeys_commit) (blast intro: budget_committed)

lemma steps_commit_execution:
  assumes "amount_checked i"
  shows "obeys (steps.outer S) (commit_execution S i actor_id)"
proof -
  have "obeys (steps.inner S) (case (in_requested_amount i, in_currency i) of
          (Some amount, Some currency) \<Rightarrow>
            bindE (commit (in_agent_id i) currency amount) (\<lambda>b.
              reset (in_agent_id i) currency (bu_limit_amount b - bu_consumed_amount b))
        | _ \<Rightarrow> ret ())"
    using assms
    by (cases "in_requested_amount i"; cases "in_currency i")
      (auto simp: amount_checked_def intro!: step_intros step_commit)
  then show ?thesis
    unfolding commit_execution_def by (intro steps.obeys_session_begin step_intros)
qed

text \<open>A tool may itself work on the database, but only as the service does.\<close>

definition tool_ok :: "service \<Rightarrow> 'r tool \<Rightarrow> bool" where
  "tool_ok S tool \<longleftrightarrow> (\<forall>w. db_steps S (w_db w) (w_db (snd (tool w))))"

lemma steps_run_tool:
  assumes "amount_checked i" and "tool_ok S tool"
  shows "obeys (steps.outer S) (run_tool S i actor_id tool)"
  unfolding obeys_def steps.outer_def
proof
  fix w :: world
  obtain r w' where run: "tool w = (r, w')" by fastforce
  have start: "db_steps S (w_db w) (w_db w')" using assms(2) run by (metis tool_ok_def snd_conv)
  have "obeys (steps.outer S) (bindE (commit_execution S i actor_id) (\<lambda>_. ret (Some x)))" for x :: 'a
    by (intro steps.obeys_outer steps_commit_execution assms)
  moreover have "obeys (steps.outer S) (bindE (record_execution_failure S i actor_id ty s)
      (\<lambda>_. raise (ToolError ty s)) :: 'a option op)" for ty s
    by (intro steps.obeys_outer steps.outer_record_execution_failure)
  ultimately have "db_steps S (w_db w') (w_db (snd (run_tool S i actor_id tool w)))"
    unfolding run_tool_def run by (cases r) (auto intro!: steps.outer_db)
  with start show "db_steps S (w_db w) (w_db (snd (run_tool S i actor_id tool w)))" by auto
qed

lemma steps_execute_tool:
  assumes "amount_checked i" and "others_ok S sched" and "tool_ok S tool"
  shows "obeys (steps.outer S) (execute_tool S sched i actor_id tool)"
  unfolding execute_tool_def
  by (auto intro!: steps.obeys_outer steps.outer_evaluate_or_wait steps_run_tool assms split: option.split)

subsection \<open>Refinement: the endpoints\<close>

lemma steps_require_role: "obeys (steps.outer S) (require_role J s roles cr)"
  by (intro steps.inner_outer steps.obeys_quiet quiet_require_role)

lemma steps_now: "obeys (steps.outer S) now_utc"
  by (intro steps.inner_outer step_intros)

lemma steps_conflict: "obeys (steps.inner S) m \<Longrightarrow> obeys (steps.inner S) (conflict_409 detail m)"
  unfolding conflict_409_def by (intro step_intros)

lemma steps_register_agent: "obeys (steps.outer S) (register_agent J S cr payload)"
  unfolding register_agent_def Let_def
  by (intro steps.obeys_outer steps_require_role steps_now step_intros steps_conflict
      steps.obeys_add_and_flush) (blast intro: agent_registered)

lemma steps_create_policy: "obeys (steps.outer S) (create_policy J S cr payload)"
  unfolding create_policy_def Let_def
  by (intro steps.obeys_outer steps_require_role steps_now step_intros steps_conflict
      steps.obeys_integer_column steps.obeys_add_and_flush) (blast intro: policy_created)

lemma steps_upsert_row:
  assumes "amount_field (bp_limit_amount payload) = Inr (bp_limit_amount payload)"
  shows "obeys (steps.inner S) (upsert_row a payload now)"
  unfolding upsert_row_def get_budget_def
proof (rule steps.obeys_execute_bind)
  fix found and w :: world
  assume found: "find_row (is_budget a (bp_currency payload)) (budgets (w_db w)) = Inr found"
  show "steps.inner S w (snd ((case found of
       None \<Rightarrow> bindE uuid4 (\<lambda>i.
         let b = new_budget a payload now i
         in bindE (add_and_flush (budget_clash b) (\<lambda>db. db\<lparr>budgets := budgets db @ [b]\<rparr>)) (\<lambda>_. ret b))
     | Some b \<Rightarrow>
         if bp_limit_amount payload < bu_consumed_amount b
         then raise (HTTPException 422 ''Budget limit cannot be lower than already consumed amount'')
         else bindE (update_db (\<lambda>db. db\<lparr>budgets :=
                  update_rows (\<lambda>r. bu_id r = bu_id b) (set_limit payload now) (budgets db)\<rparr>))
                (\<lambda>_. ret (set_limit payload now b))) w))"
  proof (cases found)
    case None
    have "obeys (steps.inner S) (bindE uuid4 (\<lambda>i.
         bindE (add_and_flush (budget_clash (new_budget a payload now i))
            (\<lambda>db. db\<lparr>budgets := budgets db @ [new_budget a payload now i]\<rparr>)) (\<lambda>_. ret (new_budget a payload now i))))"
      by (intro step_intros steps.obeys_add_and_flush) (blast intro: budget_created assms)
    then show ?thesis using None by (auto simp: Let_def dest: steps.obeys_from)
  next
    case (Some b)
    show ?thesis
    proof (cases "bp_limit_amount payload < bu_consumed_amount b")
      case True
      then show ?thesis using Some by (auto intro: steps.obeys_from [OF steps.inside.obeys_raise])
    next
      case False
      have "steps.inner S w (snd (bindE (update_db (\<lambda>db. db\<lparr>budgets :=
                  update_rows (\<lambda>r. bu_id r = bu_id b) (set_limit payload now) (budgets db)\<rparr>))
                (\<lambda>_. ret (set_limit payload now b)) w))"
        by (intro steps.update_from step_intros)
          (blast intro: limit_set [OF found [unfolded Some] assms False])
      then show ?thesis using Some False by simp
    qed
  qed
qed

lemma steps_upsert_budget:
  assumes "amount_field (bp_limit_amount payload) = Inr (bp_limit_amount payload)"
  shows "obeys (steps.outer S) (upsert_budget J S cr a payload)"
  unfolding upsert_budget_def
  by (intro steps.obeys_outer steps_require_role steps_now step_intros steps_upsert_row assms)

lemma steps_evaluate_intent:
  assumes "others_ok S sched"
  shows "obeys (steps.outer S) (evaluate_intent J S sched cr i)"
  unfolding evaluate_intent_def
  by (auto intro!: steps.obeys_outer steps.inner_outer [OF steps.obeys_quiet [OF quiet_require_principal]]
      steps.outer_evaluate_or_wait assms split: py_exn.split)

lemma steps_get_hitl: "obeys (steps.outer S) (get_hitl J S cr i)"
  unfolding get_hitl_def by (intro steps.obeys_outer steps_require_role step_intros)

lemma steps_resolution_transaction: "obeys (steps.outer S) (resolution_transaction S i payload reviewer now)"
  unfolding resolution_transaction_def
proof (intro steps.obeys_session_begin steps.obeys_execute_bind)
  fix found and w :: world
  assume found: "find_by_id i (w_db w) = Inr found"
  let ?expire = "bindE (update_db (update_hitl i (\<lambda>t. t\<lparr>hi_status := EXPIRED,
                    hi_resolved_at := Some (stored_time (sv_platform S) now),
                    hi_updated_at := stored_time (sv_platform S) now\<rparr>))) (\<lambda>_.
                  raise (HTTPException 409 ''HITL transaction has expired'')) :: hitl_response op"
  let ?resolve = "\<lambda>t. bindE (update_db (update_hitl i
                    (resolved payload reviewer (stored_time (sv_platform S) now)))) (\<lambda>_.
                  bindE (audit_append S ''hitl_resolved'' reviewer
                    (JObj [(''hitl_transaction_id'', JStr (hi_id t)), (''decision'', JStr (hr_decision payload)),
                       (''comment'', opt_json JStr (hr_comment payload))])) (\<lambda>_.
                  ret (hitl_response_of (resolved payload reviewer now t))))"
  show "steps.inner S w (snd ((case found of None \<Rightarrow> raise (HTTPException 404 ''HITL transaction not found'')
       | Some t \<Rightarrow>
           if hi_status t \<noteq> PENDING
           then raise (HTTPException 409 (''HITL transaction is already '' @ hitl_status_value (hi_status t)))
           else bindE (lift_result (datetime_le (hi_expires_at t) now)) (\<lambda>expired.
             if expired then ?expire else ?resolve t)) w))"
  proof (cases "\<exists>t. found = Some t \<and> hi_status t = PENDING")
    case False
    then show ?thesis by (auto intro: steps.obeys_from [OF steps.inside.obeys_raise] split: option.split)
  next
    case True
    then obtain t where t: "found = Some t" "hi_status t = PENDING" by blast
    show ?thesis
    proof (cases "datetime_le (hi_expires_at t) now")
      case (Inl e)
      then show ?thesis using t by (simp add: lift_bind steps.inside.R_refl)
    next
      case (Inr expired)
      have "steps.inner S w (snd ((if expired then ?expire else ?resolve t) w))"
      proof (cases expired)
        case True
        have "steps.inner S w (snd (?expire w))"
          by (intro steps.update_from step_intros) (blast intro: hitl_expired [OF found [unfolded t] t(2)])
        then show ?thesis using True by simp
      next
        case False
        then have le: "datetime_le (hi_expires_at t) now = Inr False" using Inr by simp
        have "steps.inner S w (snd (?resolve t w))"
          by (intro steps.update_from step_intros)
            (blast intro: hitl_resolved [OF found [unfolded t] t(2) le])
        then show ?thesis using False by simp
      qed
      then show ?thesis using t Inr by (simp add: lift_bind)
    qed
  qed
qed

lemma steps_resolve_hitl: "obeys (steps.outer S) (resolve_hitl J S cr i payload)"
  unfolding resolve_hitl_def
  by (intro steps.obeys_outer steps_require_role steps_now steps_resolution_transaction
      steps.inner_outer [OF steps.obeys_quiet [OF quiet_publish]])

subsection \<open>Invariants\<close>

text \<open>The keys of the tables stay distinct and every budget within its cap.\<close>

definition tables_ok :: "database \<Rightarrow> bool" where
  "tables_ok d \<longleftrightarrow> budgets_ok d \<and> distinct (map ag_id (agents d))
     \<and> distinct (map po_id (policies d)) \<and> distinct (map (\<lambda>p. (po_name p, po_version p)) (policies d))
     \<and> distinct (map hi_id (hitl_transactions d)) \<and> distinct (map hi_idempotency_key (hitl_transactions d))"

definition empty_database :: database where
  "empty_database = \<lparr>agents = [], budgets = [], policies = [], audit_logs = [], hitl_transactions = []\<rparr>"

lemma tables_ok_empty: "tables_ok empty_database"
  by (simp add: tables_ok_def empty_database_def budgets_ok_def)

lemma update_hitl_sel [simp]:
  "agents (update_hitl i f d) = agents d" "budgets (update_hitl i f d) = budgets d"
  "policies (update_hitl i f d) = policies d" "audit_logs (update_hitl i f d) = audit_logs d"
  "hitl_transactions (update_hitl i f d) = update_rows (\<lambda>t. hi_id t = i) f (hitl_transactions d)"
  by (simp_all add: update_hitl_def)

lemma resolved_sel [simp]:
  "hi_id (resolved p r n t) = hi_id t" "hi_idempotency_key (resolved p r n t) = hi_idempotency_key t"
  "hi_reviewer_id (resolved p r n t) = Some r" "hi_resolved_at (resolved p r n t) = Some n"
  by (simp_all add: resolved_def)

lemma new_budget_ok:
  assumes "amount_field (bp_limit_amount payload) = Inr (bp_limit_amount payload)"
  shows "budget_ok (new_budget a payload t i)"
  using amount_field_money [OF assms] by (simp add: budget_ok_def new_budget_def)

lemma set_limit_ok:
  assumes "amount_field (bp_limit_amount payload) = Inr (bp_limit_amount payload)"
    and "\<not> bp_limit_amount payload < bu_consumed_amount b" and "budget_ok b"
  shows "budget_ok (set_limit payload t b)"
  using amount_field_money [OF assms(1)] assms(2,3)
  by (simp add: budget_ok_def set_limit_def dec_less_iff not_less)

lemma budgets_ok_create:
  assumes "budgets_ok d" and "budget_ok b" and "\<not> budget_clash b d"
  shows "budgets_ok (d\<lparr>budgets := budgets d @ [b]\<rparr>)"
  using assms by (auto simp: budgets_ok_def budget_clash_def list_ex_iff is_budget_def)

lemma step_budgets_ok:
  assumes "db_step S d e" and "budgets_ok d"
  shows "budgets_ok e"
  using assms
proof (cases rule: db_step.cases)
  case (budget_committed a c b x t)
  then show ?thesis
    using assms(2) amount_field_money [of x x] by (auto intro!: consume_budgets_ok simp: dec_less_iff)
next
  case (budget_created payload a t i)
  then show ?thesis using assms(2) by (auto intro: budgets_ok_create new_budget_ok)
next
  case (limit_set a c b payload t)
  have "b \<in> set (budgets d)" using find_row_Some [OF limit_set(2)] by (rule conjunct1)
  then have "budget_ok (set_limit payload t b)"
    using limit_set(3,4) assms(2) by (intro set_limit_ok) (auto simp: budgets_ok_def)
  then show ?thesis
    unfolding limit_set(1) by (intro budgets_ok_update [OF assms(2) limit_set(2)]) (simp_all add: set_limit_def)
qed (simp_all add: budgets_ok_def)

lemma step_agents:
  assumes "db_step S d e" and "distinct (map ag_id (agents d))"
  shows "distinct (map ag_id (agents e))"
  using assms
proof (cases rule: db_step.cases)
  case (agent_registered a)
  then show ?thesis
    using assms(2) unfolding agent_clash_def stored_agent_def list_ex_iff by (simp add: image_iff) metis
qed simp_all

lemma step_policies:
  assumes "db_step S d e"
    and "distinct (map po_id (policies d)) \<and> distinct (map (\<lambda>p. (po_name p, po_version p)) (policies d))"
  shows "distinct (map po_id (policies e)) \<and> distinct (map (\<lambda>p. (po_name p, po_version p)) (policies e))"
  using assms
proof (cases rule: db_step.cases)
  case (policy_created p)
  then show ?thesis
    using assms(2) unfolding policy_clash_def stored_policy_def list_ex_iff by (simp add: image_iff) metis
qed simp_all

lemma step_requests:
  assumes "db_step S d e"
    and "distinct (map hi_id (hitl_transactions d)) \<and> distinct (map hi_idempotency_key (hitl_transactions d))"
  shows "distinct (map hi_id (hitl_transactions e)) \<and> distinct (map hi_idempotency_key (hitl_transactions e))"
  using assms
proof (cases rule: db_step.cases)
  case (hitl_requested t)
  then show ?thesis
    using assms(2) unfolding hitl_clash_def stored_hitl_def list_ex_iff by (simp add: image_iff) metis
qed (simp_all add: map_update_rows)

lemma step_tables_ok:
  assumes "db_step S d e" and "tables_ok d"
  shows "tables_ok e"
  using assms step_budgets_ok step_agents step_policies step_requests by (simp add: tables_ok_def)

lemma steps_invariant:
  assumes "\<And>d e. db_step S d e \<Longrightarrow> I d \<Longrightarrow> I e" and "db_steps S d e" and "I d"
  shows "I e"
  using assms(2,3) by induction (auto intro: assms(1))

text \<open>The audit log is what the columns made of entries that were written one after the other.\<close>

lemma step_logged:
  assumes "db_step S d e" and "\<exists>rs. logged (sv_platform S) (audit_hmac_key (sv_settings S)) rs (audit_logs d)"
  shows "\<exists>rs. logged (sv_platform S) (audit_hmac_key (sv_settings S)) rs (audit_logs e)"
  using assms(1)
proof (cases rule: db_step.cases)
  case (audit_appended e' a t r p i)
  then show ?thesis using assms(2) by (auto dest: logged_next)
qed (use assms(2) in simp_all)

text \<open>Entries of the log are never changed or removed.\<close>

lemma step_audit_prefix: "db_step S d e \<Longrightarrow> prefix (audit_logs d) (audit_logs e)"
  by (cases rule: db_step.cases) auto

text \<open>A settled approval request is never touched again.\<close>

lemma update_rows_keeps: "r \<in> set rows \<Longrightarrow> \<not> p r \<Longrightarrow> r \<in> set (update_rows p f rows)"
  by (force simp: update_rows_def)

lemma step_settled:
  assumes "db_step S d e" and "t \<in> set (hitl_transactions d)" and "hi_status t \<noteq> PENDING"
  shows "t \<in> set (hitl_transactions e)"
proof -
  have other: "hi_id t \<noteq> i" if "find_by_id i d = Inr (Some q)" "hi_status q = PENDING" for i q
    using that assms(2,3) find_row_only [of "\<lambda>t. hi_id t = i" "hitl_transactions d" q t]
    by (auto simp: find_by_id_def)
  from assms(1) show ?thesis
    by (cases rule: db_step.cases) (use assms(2) other in \<open>auto intro!: update_rows_keeps\<close>)
qed

text \<open>An approval or rejection names its reviewer and was given before the request expired.\<close>

definition reviewed_in_time :: "hitl_transaction \<Rightarrow> bool" where
  "reviewed_in_time t \<longleftrightarrow> (hi_status t \<in> {APPROVED, REJECTED} \<longrightarrow>
     (\<exists>r n. hi_reviewer_id t = Some r \<and> hi_resolved_at t = Some n \<and> micros n < micros (hi_expires_at t)))"

lemma datetime_le_False: "datetime_le a b = Inr False \<Longrightarrow> micros b < micros a"
  by (auto simp: datetime_le_def split: if_splits)

lemma step_reviewed:
  assumes "db_step S d e" and "\<forall>t. stored_time (sv_platform S) t = t"
    and "\<forall>t \<in> set (hitl_transactions d). reviewed_in_time t"
  shows "\<forall>t \<in> set (hitl_transactions e). reviewed_in_time t"
  using assms(1)
proof (cases rule: db_step.cases)
  case (hitl_requested t)
  then show ?thesis using assms(3) by (auto simp: reviewed_in_time_def stored_hitl_def)
next
  case (hitl_expired i t now)
  then show ?thesis
    using assms(3) update_rows_set by (fastforce simp: reviewed_in_time_def)
next
  case (hitl_resolved i t now payload reviewer)
  have "reviewed_in_time (resolved payload reviewer now q)" if "q \<in> set (hitl_transactions d)" "hi_id q = i" for q
  proof -
    have "q = t" using find_row_only [of "\<lambda>t. hi_id t = i"] hitl_resolved(2) that by (simp add: find_by_id_def)
    then show ?thesis
      using datetime_le_False [OF hitl_resolved(4)] by (simp add: reviewed_in_time_def resolved_def)
  qed
  then show ?thesis
    unfolding hitl_resolved(1) using assms(2,3) by (auto dest!: update_rows_set)
qed (use assms(3) in auto)

text \<open>What was consumed of a budget stays consumed, and no budget disappears.\<close>

definition budget_kept :: "budget \<Rightarrow> budget \<Rightarrow> bool" where
  "budget_kept b b' \<longleftrightarrow> bu_agent_id b' = bu_agent_id b \<and> bu_currency b' = bu_currency b
     \<and> dval (bu_consumed_amount b) \<le> dval (bu_consumed_amount b') \<and> bu_version b \<le> bu_version b'"

lemma budget_kept_refl [simp]: "budget_kept b b"
  by (simp add: budget_kept_def)

lemma budget_kept_trans: "budget_kept a b \<Longrightarrow> budget_kept b c \<Longrightarrow> budget_kept a c"
  by (auto simp: budget_kept_def)

lemma update_kept:
  assumes "find_row p (budgets d) = Inr (Some r)" and "distinct (map bu_id (budgets d))"
    and "budget_kept r (f r)" and "b \<in> set (budgets d)"
  shows "\<exists>b' \<in> set (update_rows (\<lambda>q. bu_id q = bu_id r) f (budgets d)). budget_kept b b'"
proof -
  have r: "r \<in> set (budgets d)" using find_row_Some [OF assms(1)] by blast
  show ?thesis
    using update_rows_one [OF assms(2) r, of f] assms(3,4)
    by (intro bexI [of _ "if b = r then f r else b"]) auto
qed

lemma step_budget_kept:
  assumes "db_step S d e" and "budgets_ok d" and "b \<in> set (budgets d)"
  shows "\<exists>b' \<in> set (budgets e). budget_kept b b'"
  using assms(1)
proof (cases rule: db_step.cases)
  case (budget_committed a c r x t)
  have r: "budget_ok r" using find_row_Some [OF budget_committed(2)] assms(2) by (auto simp: budgets_ok_def)
  have "budget_kept r (consume r x t r)"
    using consume_ok(2) [OF r, of x t] amount_field_money [OF budget_committed(4)] budget_committed(5)
    by (simp add: budget_kept_def)
  then show ?thesis
    unfolding budget_committed(1) using update_kept [OF budget_committed(2) _ _ assms(3)] assms(2)
    by (simp add: budgets_ok_def)
next
  case (limit_set a c r payload t)
  have "budget_kept r (set_limit payload t r)" by (simp add: budget_kept_def set_limit_def)
  then show ?thesis
    unfolding limit_set(1) using update_kept [OF limit_set(2) _ _ assms(3)] assms(2)
    by (simp add: budgets_ok_def)
qed (use assms(3) in \<open>auto intro: bexI [of _ b]\<close>)

lemma steps_budgets_ok: "db_steps S d e \<Longrightarrow> budgets_ok d \<Longrightarrow> budgets_ok e"
  by (rule steps_invariant [of S budgets_ok]) (rule step_budgets_ok)

lemma steps_budget_kept:
  assumes "db_steps S d e" and "budgets_ok d" and "b \<in> set (budgets d)"
  shows "\<exists>b' \<in> set (budgets e). budget_kept b b'"
  using assms(1)
proof induction
  case base
  then show ?case using assms(3) by (auto intro: bexI [of _ b])
next
  case (step y z)
  then obtain b1 where b1: "b1 \<in> set (budgets y)" "budget_kept b b1" by blast
  have "budgets_ok y" using steps_budgets_ok step.hyps(1) assms(2) by blast
  then show ?case using step_budget_kept [OF step.hyps(2) _ b1(1)] b1(2) budget_kept_trans by blast
qed

lemma steps_audit_prefix: "db_steps S d e \<Longrightarrow> prefix (audit_logs d) (audit_logs e)"
  by (induction rule: rtranclp_induct) (auto intro: step_audit_prefix prefix_order.trans)

lemma steps_settled:
  "db_steps S d e \<Longrightarrow> t \<in> set (hitl_transactions d) \<Longrightarrow> hi_status t \<noteq> PENDING \<Longrightarrow> t \<in> set (hitl_transactions e)"
  by (induction rule: rtranclp_induct) (auto intro: step_settled)

text \<open>A decision is only handed out after it was logged.\<close>

lemma evaluation_logged:
  assumes "others_ok S sched" and "evaluate_or_wait S sched i a w = (Inr x, w')"
  shows "\<exists>d v. evaluate i (w\<lparr>w_base := w_db w, w_session_ok := True\<rparr>) = (Inr d, v)
    \<and> prefix (audit_logs (w_db w) @ [stored_entry (sv_platform S)
         (next_entry (sv_platform S) (audit_hmac_key (sv_settings S)) ''execution_intent_evaluated'' a
           (JObj [(''intent'', intent_json i), (''decision'', decision_json d)]) v)]) (audit_logs (w_db w'))"
proof -
  let ?w = "w\<lparr>w_base := w_db w, w_session_ok := True\<rparr>"
  from assms(2) obtain r w1 where ev: "evaluation_transaction S (sc_race sched) i a w = (Inr r, w1)"
    unfolding evaluate_or_wait_def bindE_Inr by blast
  then obtain d v q v' where e: "evaluate i ?w = (Inr d, v)"
    and ap: "audit_append S ''execution_intent_evaluated'' a
       (JObj [(''intent'', intent_json i), (''decision'', decision_json d)]) v = (Inr q, v')"
    and k: "evaluation_rest S (sc_race sched) i d v' = (Inr r, w1)"
    by (rule evaluation_transaction_Inr) (auto simp: evaluation_rest_def)
  note a = append_Inr [OF ap]
  have db: "w_db v = w_db w" using same_sessionD(1) [OF quiet_evaluate e] by simp
  have "db_steps S (w_db v') (w_db w1)"
    using obeysD_pair [OF steps.inner_evaluation_rest k] assms(1) by (simp add: others_along_def steps.inner_def)
  moreover have "db_steps S (w_db w1) (w_db w')"
  proof -
    from assms(2) ev have "evaluate_tail S sched i a r w1 = (Inr x, w')"
      by (simp add: evaluate_or_wait_def bindE_def evaluate_tail_def)
    then show ?thesis using obeysD_pair [OF steps.outer_evaluate_tail [OF assms(1)]] by (simp add: steps.outer_def)
  qed
  ultimately have "prefix (audit_logs (w_db v')) (audit_logs (w_db w'))"
    using steps_audit_prefix by (meson rtranclp_trans)
  moreover have "audit_logs (w_db v') = audit_logs (w_db w) @ [stored_entry (sv_platform S)
       (next_entry (sv_platform S) (audit_hmac_key (sv_settings S)) ''execution_intent_evaluated'' a
         (JObj [(''intent'', intent_json i), (''decision'', decision_json d)]) v)]"
    using a(3) db by (simp add: next_entry_def)
  ultimately show ?thesis using e by auto
qed

text \<open>What a resolution that went through did.\<close>

lemma resolution_settles:
  assumes "resolution_transaction S tid payload reviewer now w = (Inr r, w')"
  shows "\<exists>t t'. find_by_id tid (w_db w) = Inr (Some t) \<and> hi_status t = PENDING
    \<and> datetime_le (hi_expires_at t) now = Inr False
    \<and> find_by_id tid (w_db w') = Inr (Some t')
    \<and> hi_status t' = (if hr_decision payload = ''approved'' then APPROVED else REJECTED)
    \<and> hi_reviewer_id t' = Some reviewer \<and> hi_agent_id t' = hi_agent_id t \<and> hi_action t' = hi_action t
    \<and> hp_status r = hitl_status_value (hi_status t')"
proof -
  let ?w = "w\<lparr>w_base := w_db w, w_session_ok := True\<rparr>"
  let ?f = "resolved payload reviewer (stored_time (sv_platform S) now)"
  note run = assms [unfolded resolution_transaction_def session_begin_Inr execute_bind]
  from run obtain found where f: "find_by_id tid (w_db w) = Inr found"
    by (cases "find_by_id tid (w_db w)") simp_all
  with run obtain t where t: "found = Some t" "hi_status t = PENDING"
    by (cases found) (auto simp: raise_def split: if_splits)
  with run f have "bindE (lift_result (datetime_le (hi_expires_at t) now)) (\<lambda>expired.
             if expired
             then bindE (update_db (update_hitl tid (\<lambda>t. t\<lparr>hi_status := EXPIRED,
                    hi_resolved_at := Some (stored_time (sv_platform S) now),
                    hi_updated_at := stored_time (sv_platform S) now\<rparr>))) (\<lambda>_.
                  raise (HTTPException 409 ''HITL transaction has expired''))
             else bindE (update_db (update_hitl tid ?f)) (\<lambda>_.
                  bindE (audit_append S ''hitl_resolved'' reviewer
                    (JObj [(''hitl_transaction_id'', JStr (hi_id t)), (''decision'', JStr (hr_decision payload)),
                       (''comment'', opt_json JStr (hr_comment payload))])) (\<lambda>_.
                  ret (hitl_response_of (resolved payload reviewer now t))))) ?w = (Inr r, w')"
    by simp
  then obtain w1 q w2 where le: "datetime_le (hi_expires_at t) now = Inr False"
    and u: "update_db (update_hitl tid ?f) ?w = (Inr (), w1)"
    and ap: "audit_append S ''hitl_resolved'' reviewer
                    (JObj [(''hitl_transaction_id'', JStr (hi_id t)), (''decision'', JStr (hr_decision payload)),
                       (''comment'', opt_json JStr (hr_comment payload))]) w1 = (Inr q, w')"
    and r: "r = hitl_response_of (resolved payload reviewer now t)"
    by (cases "datetime_le (hi_expires_at t) now")
      (auto simp: lift_bind bindE_Inr raise_def ret_def split: if_splits)
  have "w_db w1 = update_hitl tid ?f (w_db w)" using u by (auto simp: update_db_def modify_s_def)
  then have "hitl_transactions (w_db w') = update_rows (\<lambda>t. hi_id t = tid) ?f (hitl_transactions (w_db w))"
    using append_Inr(3) [OF ap] by simp
  moreover have "find_row (\<lambda>t. hi_id t = tid) (update_rows (\<lambda>t. hi_id t = tid) ?f (hitl_transactions (w_db w)))
      = Inr (Some (?f t))"
    using f t by (intro find_row_update_same) (simp_all add: find_by_id_def)
  ultimately show ?thesis using f t le r
    by (simp add: find_by_id_def resolved_def hitl_response_of_def)
qed

end
