(* ===== verification/Audit_Sessions.thy ===== *)
theory Audit_Sessions
  imports Audit_Trail
begin

text \<open>
  Appends of several sessions at the same time.  \<open>append\<close> reads the last entry and inserts the next one
  in a transaction of its own length: between the two, and until the commit, other sessions
  read and commit too, and none of them sees the rows of the others.  What keeps the chain from
  forking is the unique constraint on \<open>sequence_number\<close>.
\<close>

subsection \<open>Interleaved sessions\<close>

text \<open>
  The committed rows, and the rows each session (a number) has added and not committed.  A session
  calls \<open>append\<close> on what it sees, the committed rows and its own; a commit checks the constraint
  against the rows that are committed by then.
\<close>

type_synonym sessions = "audit_log list \<times> (nat \<Rightarrow> audit_log list)"

inductive session_step :: "platform \<Rightarrow> string \<Rightarrow> sessions \<Rightarrow> sessions \<Rightarrow> bool" for P key where
  appends: "\<lbrakk>w_db w = d\<lparr>audit_logs := tab @ own s\<rparr>; append P key e a p w = (Inr r, w');
      audit_logs (w_db w') = tab @ rows\<rbrakk>
    \<Longrightarrow> session_step P key (tab, own) (tab, own(s := rows))"
| commits: "distinct (map au_sequence_number (tab @ own s))
    \<Longrightarrow> session_step P key (tab, own) (tab @ own s, own(s := []))"
| rolls_back: "session_step P key (tab, own) (tab, own(s := []))"

subsection \<open>What a session adds\<close>

text \<open>One entry more, built on the last one; and rows numbered from 1 without a gap.\<close>

definition audit_step :: "platform \<Rightarrow> string \<Rightarrow> audit_log list \<Rightarrow> audit_log list \<Rightarrow> bool" where
  "audit_step P key l l' \<longleftrightarrow> (\<exists>e a p t i. e \<noteq> [] \<and> length e \<le> 128 \<and> a \<noteq> [] \<and> length a \<le> 128 \<and> aware t
     \<and> l' = l @ [stored_entry P (new_entry P key e a p (last_entry l) t i)])"

abbreviation audit_steps :: "platform \<Rightarrow> string \<Rightarrow> audit_log list \<Rightarrow> audit_log list \<Rightarrow> bool" where
  "audit_steps P key \<equiv> (audit_step P key)\<^sup>*\<^sup>*"

definition numbered :: "audit_log list \<Rightarrow> bool" where
  "numbered rows \<longleftrightarrow> au_sequence_number ` set rows = {1..int (length rows)}"

lemma last_sorted_max:
  assumes "r \<in> set rows"
  shows "f r \<le> (f (last (sort_key f rows)) :: int)"
proof -
  let ?s = "sort_key f rows"
  from assms obtain k where k: "k < length ?s" "?s ! k = r" by (metis in_set_conv_nth set_sort)
  have "map f ?s ! k \<le> map f ?s ! (length ?s - 1)"
    using k(1) by (intro sorted_nth_mono) auto
  moreover have "?s \<noteq> []" using k(1) by (metis length_0_conv not_less_zero)
  ultimately show ?thesis using k by (simp add: last_conv_nth)
qed

lemma numbered_next:
  assumes "numbered rows"
  shows "au_sequence_number (new_entry P key e a p (last_entry rows) t i) = int (length rows) + 1"
proof (cases "rows = []")
  case False
  let ?s = "sort_key au_sequence_number rows"
  have s: "?s \<noteq> []" using False by (metis length_0_conv length_sort)
  then have "last ?s \<in> set rows" by (metis last_in_set set_sort)
  then have "au_sequence_number (last ?s) \<in> {1..int (length rows)}"
    using assms unfolding numbered_def by blast
  moreover have "int (length rows) \<in> au_sequence_number ` set rows"
    using assms False unfolding numbered_def by (cases rows) auto
  then have "int (length rows) \<le> au_sequence_number (last ?s)"
    using last_sorted_max [of _ rows au_sequence_number] by auto
  ultimately have "au_sequence_number (last ?s) = int (length rows)" by simp
  then show ?thesis using s by (simp add: last_entry_def Let_def)
qed (simp add: last_entry_def)

lemma audit_step_numbered:
  assumes "audit_step P key l l'" and "numbered l"
  shows "numbered l'"
proof -
  from assms(1) obtain q where l': "l' = l @ [q]" and q: "au_sequence_number q = int (length l) + 1"
    unfolding audit_step_def using numbered_next [OF assms(2)] by (metis stored_entry_sel(2))
  have "{1..int (length l) + 1} = insert (int (length l) + 1) {1..int (length l)}" by auto
  then show ?thesis using assms(2) unfolding l' by (simp add: numbered_def q add.commute)
qed

lemma audit_steps_numbered: "audit_steps P key l l' \<Longrightarrow> numbered l \<Longrightarrow> numbered l'"
  by (induction rule: rtranclp_induct) (auto intro: audit_step_numbered)

lemma append_audit_step:
  assumes "append P key e a p w = (Inr r, w')"
  shows "audit_step P key (audit_logs (w_db w)) (audit_logs (w_db w'))"
  unfolding audit_step_def
  by (intro exI [of _ e] exI [of _ a] exI [of _ p] exI [of _ "Datetime (w_clock w (w_ticks w)) True"]
      exI [of _ "w_uuid w (w_uuids w)"]) (use append_Inr [OF assms] in simp)

text \<open>
  The rows of a session go on from the committed ones, or one of them has a number that is taken
  meanwhile, so that the session can no longer commit.
\<close>

definition current :: "platform \<Rightarrow> string \<Rightarrow> audit_log list \<Rightarrow> audit_log list \<Rightarrow> bool" where
  "current P key tab rows \<longleftrightarrow> audit_steps P key tab (tab @ rows)
     \<or> (\<exists>q \<in> set rows. au_sequence_number q \<in> {1..int (length tab)})"

lemma current_Nil [simp]: "current P key tab []"
  by (simp add: current_def)

lemma current_append:
  assumes "current P key tab rows" and "audit_logs (w_db w) = tab @ rows"
    and "append P key e a p w = (Inr r, w')"
  shows "\<exists>rows'. audit_logs (w_db w') = tab @ rows' \<and> current P key tab rows'"
proof -
  have "audit_step P key (tab @ rows) (audit_logs (w_db w'))"
    using append_audit_step [OF assms(3)] assms(2) by simp
  moreover from this obtain q where "audit_logs (w_db w') = tab @ (rows @ [q])" by (auto simp: audit_step_def)
  ultimately show ?thesis using assms(1) unfolding current_def by (auto intro: rtranclp.rtrancl_into_rtrancl)
qed

lemma current_commit:
  assumes "current P key tab rows" and "numbered tab" and "distinct (map au_sequence_number (tab @ rows))"
  shows "audit_steps P key tab (tab @ rows)"
  using assms by (auto simp: current_def numbered_def)

text \<open>The rows of a session begin at the number after the committed ones, until others commit.\<close>

lemma own_first_number:
  assumes "audit_steps P key tab (tab @ rows)" and "numbered tab" and "rows \<noteq> []"
  shows "\<exists>q \<in> set rows. au_sequence_number q = int (length tab) + 1"
proof -
  have "int (length tab) + 1 \<in> au_sequence_number ` set (tab @ rows)"
    using audit_steps_numbered [OF assms(1,2)] assms(3) unfolding numbered_def by (cases rows) auto
  moreover have "int (length tab) + 1 \<notin> au_sequence_number ` set tab"
    using assms(2) unfolding numbered_def by simp
  ultimately show ?thesis by (auto simp: image_iff)
qed

lemma current_other:
  assumes "current P key tab rows" and "numbered tab"
  shows "current P key (tab @ others) rows"
proof (cases "rows = [] \<or> others = []")
  case True
  then show ?thesis using assms(1) by auto
next
  case False
  show ?thesis
  proof (cases "audit_steps P key tab (tab @ rows)")
    case True
    then obtain q where "q \<in> set rows" and "au_sequence_number q = int (length tab) + 1"
      using own_first_number [OF _ assms(2)] False by blast
    then show ?thesis using False unfolding current_def by (cases others) fastforce+
  next
    case not_next: False
    then show ?thesis using assms(1) unfolding current_def by fastforce
  qed
qed

definition sessions_ok :: "platform \<Rightarrow> string \<Rightarrow> sessions \<Rightarrow> bool" where
  "sessions_ok P key x \<longleftrightarrow> (case x of (tab, own) \<Rightarrow>
     audit_steps P key [] tab \<and> (\<forall>s. current P key tab (own s)))"

lemma numbered_log: "audit_steps P key [] tab \<Longrightarrow> numbered tab"
  by (erule audit_steps_numbered) (simp add: numbered_def)

lemma session_step_ok:
  assumes "session_step P key x y" and "sessions_ok P key x"
  shows "sessions_ok P key y"
  using assms
proof (cases rule: session_step.cases)
  case (appends w tab own s d e a p r w' rows)
  have "current P key tab rows"
    using current_append [of P key tab "own s" w e a p r w'] assms(2) appends by (auto simp: sessions_ok_def)
  then show ?thesis using assms(2) appends(1,2) by (simp add: sessions_ok_def)
next
  case (commits tab own s)
  then have tab: "audit_steps P key [] tab" and cur: "\<And>t. current P key tab (own t)"
    using assms(2) by (simp_all add: sessions_ok_def)
  note n = numbered_log [OF tab]
  have "audit_steps P key [] (tab @ own s)"
    using tab current_commit [OF cur n commits(3)] by (rule rtranclp_trans)
  then show ?thesis using commits(2) current_other [OF cur n] by (simp add: sessions_ok_def)
next
  case (rolls_back tab own s)
  then show ?thesis using assms(2) by (simp add: sessions_ok_def)
qed

lemma sessions_reachable:
  assumes "(session_step P key)\<^sup>*\<^sup>* x y" and "sessions_ok P key x"
  shows "sessions_ok P key y"
  using assms by (induction rule: rtranclp_induct) (auto intro: session_step_ok)

text \<open>The steps add entries that were written one after the other.\<close>

lemma audit_steps_logged:
  assumes "audit_steps P key l l'" and "logged P key rs l"
  shows "\<exists>rs'. logged P key rs' l'"
  using assms
proof (induction rule: rtranclp_induct)
  case (step l l')
  then obtain qs where "logged P key qs l" by blast
  with step.hyps(2) show ?case unfolding audit_step_def by (auto dest: logged_next)
qed blast

subsection \<open>Property\<close>



end
