(* ===== verification/Service_Sessions.thy ===== *)
theory Service_Sessions
  imports Service_Steps Audit_Sessions
begin

text \<open>
  The transactions of the service, statement by statement.  Between two statements of one
  transaction other sessions read, write and commit.  Three things of the code and its tables keep them
  apart: the reads \<open>with_for_update()\<close> that precede every update of a row, the unique constraints
  of the tables, and the numbers of the audit log.  The main result is that every interleaving
  amounts to a sequence of the steps of \<open>Service_Steps\<close>, provided that the database honours the row locks.
\<close>

subsection \<open>What a transaction writes\<close>

text \<open>
  Apart from the audit log a transaction of the service writes one row: it updates one that it has read
  (the row read and the row left behind), or it inserts one.  An update sets the columns that
  have changed since they were read.
\<close>

datatype change =
    SetBudget budget budget
  | AddBudget budget
  | SetRequest hitl_transaction hitl_transaction
  | AddRequest hitl_transaction
  | AddAgent agent
  | AddPolicy policy

definition changed :: "'a \<Rightarrow> 'a \<Rightarrow> 'a \<Rightarrow> 'a" where
  "changed old new stored = (if new = old then stored else new)"

lemma changed_read [simp]: "changed old new old = new"
  by (simp add: changed_def)

definition flush_budget :: "budget \<Rightarrow> budget \<Rightarrow> budget \<Rightarrow> budget" where
  "flush_budget b b' r = r\<lparr>
     bu_limit_amount := changed (bu_limit_amount b) (bu_limit_amount b') (bu_limit_amount r),
     bu_consumed_amount := changed (bu_consumed_amount b) (bu_consumed_amount b') (bu_consumed_amount r),
     bu_version := changed (bu_version b) (bu_version b') (bu_version r),
     bu_updated_at := changed (bu_updated_at b) (bu_updated_at b') (bu_updated_at r)\<rparr>"

definition flush_request :: "hitl_transaction \<Rightarrow> hitl_transaction \<Rightarrow> hitl_transaction \<Rightarrow> hitl_transaction" where
  "flush_request t t' r = r\<lparr>
     hi_status := changed (hi_status t) (hi_status t') (hi_status r),
     hi_reviewer_id := changed (hi_reviewer_id t) (hi_reviewer_id t') (hi_reviewer_id r),
     hi_reviewer_comment := changed (hi_reviewer_comment t) (hi_reviewer_comment t') (hi_reviewer_comment r),
     hi_resolved_at := changed (hi_resolved_at t) (hi_resolved_at t') (hi_resolved_at r),
     hi_updated_at := changed (hi_updated_at t) (hi_updated_at t') (hi_updated_at r)\<rparr>"

fun apply_change :: "platform \<Rightarrow> change \<Rightarrow> database \<Rightarrow> database" where
  "apply_change P (SetBudget b b') d =
     d\<lparr>budgets := update_rows (\<lambda>r. bu_id r = bu_id b) (flush_budget b b') (budgets d)\<rparr>"
| "apply_change P (AddBudget b) d = d\<lparr>budgets := budgets d @ [b]\<rparr>"
| "apply_change P (SetRequest t t') d = update_hitl (hi_id t) (flush_request t t') d"
| "apply_change P (AddRequest t) d = d\<lparr>hitl_transactions := hitl_transactions d @ [stored_hitl P t]\<rparr>"
| "apply_change P (AddAgent a) d = d\<lparr>agents := agents d @ [stored_agent P a]\<rparr>"
| "apply_change P (AddPolicy p) d = d\<lparr>policies := policies d @ [stored_policy P p]\<rparr>"

text \<open>The unique constraints an insert is checked against, and the row an update has locked.\<close>

fun clashes :: "change \<Rightarrow> database \<Rightarrow> bool" where
  "clashes (AddBudget b) d = budget_clash b d"
| "clashes (AddRequest t) d = hitl_clash t d"
| "clashes (AddAgent a) d = agent_clash a d"
| "clashes (AddPolicy p) d = policy_clash p d"
| "clashes _ d = False"

fun locked_row :: "change \<Rightarrow> (string + string) option" where
  "locked_row (SetBudget b b') = Some (Inl (bu_id b))"
| "locked_row (SetRequest t t') = Some (Inr (hi_id t))"
| "locked_row _ = None"

text \<open>The statements of the code, on what the session sees.\<close>

inductive statement :: "service \<Rightarrow> database \<Rightarrow> change \<Rightarrow> bool" for S where
  charges: "\<lbrakk>find_row (is_budget a c) (budgets (w_db w)) = Inr (Some b); amount_field x = Inr x;
      commit a c x w = (Inr b', w')\<rbrakk>
    \<Longrightarrow> statement S (w_db w) (SetBudget b b')"
| sets_limit: "\<lbrakk>find_row (is_budget a (bp_currency payload)) (budgets (w_db w)) = Inr (Some b);
      amount_field (bp_limit_amount payload) = Inr (bp_limit_amount payload);
      upsert_row a payload now w = (Inr b', w')\<rbrakk>
    \<Longrightarrow> statement S (w_db w) (SetBudget b b')"
| creates_budget: "\<lbrakk>find_row (is_budget a (bp_currency payload)) (budgets (w_db w)) = Inr None;
      amount_field (bp_limit_amount payload) = Inr (bp_limit_amount payload);
      upsert_row a payload now w = (Inr b', w')\<rbrakk>
    \<Longrightarrow> statement S (w_db w) (AddBudget b')"
| expires: "\<lbrakk>find_by_id i d = Inr (Some t); hi_status t = PENDING; n = stored_time (sv_platform S) now\<rbrakk>
    \<Longrightarrow> statement S d (SetRequest t (t\<lparr>hi_status := EXPIRED, hi_resolved_at := Some n, hi_updated_at := n\<rparr>))"
| resolves: "\<lbrakk>find_by_id i d = Inr (Some t); hi_status t = PENDING; datetime_le (hi_expires_at t) now = Inr False\<rbrakk>
    \<Longrightarrow> statement S d (SetRequest t (resolved payload reviewer (stored_time (sv_platform S) now) t))"
| requests: "\<not> hitl_clash t d \<Longrightarrow> t = new_hitl (sv_settings S) intent decision now i
    \<Longrightarrow> statement S d (AddRequest t)"
| registers: "\<not> agent_clash a d \<Longrightarrow> a = new_agent agent_body now \<Longrightarrow> statement S d (AddAgent a)"
| creates_policy: "\<not> policy_clash p d \<Longrightarrow> p = new_policy policy_body now i \<Longrightarrow> statement S d (AddPolicy p)"

subsection \<open>Sessions\<close>

text \<open>
  A session: the row it has written and the audit entries it has added, neither committed.  It sees
  the committed rows and its own.
\<close>

record session =
  se_change :: "change option"
  se_audit :: "audit_log list"

definition idle :: session where
  "idle = \<lparr>se_change = None, se_audit = []\<rparr>"

definition written :: "platform \<Rightarrow> session \<Rightarrow> database \<Rightarrow> database" where
  "written P s d = (case se_change s of None \<Rightarrow> d | Some ch \<Rightarrow> apply_change P ch d)"

definition session_view :: "platform \<Rightarrow> session \<Rightarrow> database \<Rightarrow> database" where
  "session_view P s d = (written P s d)\<lparr>audit_logs := audit_logs d @ se_audit s\<rparr>"

definition distinct_entries :: "audit_log list \<Rightarrow> bool" where
  "distinct_entries rows \<longleftrightarrow> distinct (map au_sequence_number rows) \<and> distinct (map au_entry_hash rows)
     \<and> distinct (map au_id rows)"

definition admitted :: "session \<Rightarrow> database \<Rightarrow> bool" where
  "admitted s d \<longleftrightarrow> distinct_entries (audit_logs d @ se_audit s) \<and> pred_option (\<lambda>ch. \<not> clashes ch d) (se_change s)"

definition lock_of :: "session \<Rightarrow> (string + string) option" where
  "lock_of s = Option.bind (se_change s) locked_row"

definition apart :: "'a option \<Rightarrow> 'a option \<Rightarrow> bool" where
  "apart x y \<longleftrightarrow> x = None \<or> y \<noteq> x"

text \<open>
  \<open>locking\<close> says whether the database honours \<open>with_for_update()\<close>: then a session that
  updates a row waits until no other has a row lock on it.  The dialect of SQLite leaves the clause out.
\<close>

type_synonym service_sessions = "database \<times> (nat \<Rightarrow> session)"

inductive transaction_step :: "service \<Rightarrow> bool \<Rightarrow> service_sessions \<Rightarrow> service_sessions \<Rightarrow> bool" for S locking where
  writes: "\<lbrakk>se_change (own s) = None; statement S (session_view (sv_platform S) (own s) d) ch;
      locking \<Longrightarrow> \<forall>t. t \<noteq> s \<longrightarrow> apart (locked_row ch) (lock_of (own t))\<rbrakk>
    \<Longrightarrow> transaction_step S locking (d, own) (d, own(s := (own s)\<lparr>se_change := Some ch\<rparr>))"
| appends: "\<lbrakk>w_db w = session_view (sv_platform S) (own s) d; audit_append S e a p w = (Inr r, w');
      audit_logs (w_db w') = audit_logs d @ rows\<rbrakk>
    \<Longrightarrow> transaction_step S locking (d, own) (d, own(s := (own s)\<lparr>se_audit := rows\<rparr>))"
| commits: "admitted (own s) d
    \<Longrightarrow> transaction_step S locking (d, own) (session_view (sv_platform S) (own s) d, own(s := idle))"
| rolls_back: "transaction_step S locking (d, own) (d, own(s := idle))"

subsection \<open>A write as a step of the service\<close>

lemma update_rows_cong_key:
  assumes "distinct (map key rows)" and "b \<in> set rows" and "f b = g b"
  shows "update_rows (\<lambda>r. key r = key b) f rows = update_rows (\<lambda>r. key r = key b) g rows"
  using assms by (auto simp: update_rows_def distinct_map dest: inj_onD)

lemma find_row_key:
  assumes "distinct (map key rows)" and "b \<in> set rows"
  shows "find_row (\<lambda>r. key r = key b) rows = Inr (Some b)"
proof -
  have "find_row (\<lambda>r. key r = key b) rows \<noteq> Inr None" using assms(2) by (auto simp: find_row_None)
  then obtain r where r: "find_row (\<lambda>r. key r = key b) rows = Inr (Some r)"
    unfolding find_row_unique [OF assms(1)] by auto
  then show ?thesis using find_row_only [OF r assms(2)] by simp
qed

lemma flush_same [simp]:
  "flush_budget b (consume b x t b) b = consume b x t b"
  "flush_budget b (set_limit payload t b) b = set_limit payload t b"
  "flush_request q (q\<lparr>hi_status := st, hi_resolved_at := Some n, hi_updated_at := n\<rparr>) q
     = q\<lparr>hi_status := st, hi_resolved_at := Some n, hi_updated_at := n\<rparr>"
  "flush_request q (resolved resolution reviewer n q) q = resolved resolution reviewer n q"
  by (simp_all add: flush_budget_def flush_request_def consume_def set_limit_def resolved_def)

lemma upsert_found:
  assumes "upsert_row a payload now w = (Inr b', w')"
    and "find_row (is_budget a (bp_currency payload)) (budgets (w_db w)) = Inr (Some b)"
  shows "b' = set_limit payload now b" and "\<not> bp_limit_amount payload < bu_consumed_amount b"
  using assms by (auto simp: upsert_row_def get_budget_def execute_def eff_simps update_db_def split: if_splits)

lemma upsert_missing:
  assumes "upsert_row a payload now w = (Inr b', w')"
    and "find_row (is_budget a (bp_currency payload)) (budgets (w_db w)) = Inr None"
  shows "\<exists>i. b' = new_budget a payload now i \<and> \<not> budget_clash b' (w_db w)"
  using assms
  by (auto simp: upsert_row_def get_budget_def execute_def eff_simps uuid4_def add_and_flush_def Let_def split: if_splits)

text \<open>The row an update has read is still there, as it was read.\<close>

fun row_kept :: "change \<Rightarrow> database \<Rightarrow> bool" where
  "row_kept (SetBudget b b') d = (b \<in> set (budgets d))"
| "row_kept (SetRequest t t') d = (t \<in> set (hitl_transactions d))"
| "row_kept _ d = True"

lemma statement_kept: "statement S d ch \<Longrightarrow> row_kept ch d"
  by (cases rule: statement.cases) (auto dest: find_row_Some simp: find_by_id_def)

lemma find_budget_kept:
  assumes "tables_ok d" and "b \<in> set (budgets d)" and "is_budget a c b"
  shows "find_row (is_budget a c) (budgets d) = Inr (Some b)"
proof -
  have "is_budget a c = (\<lambda>r. (bu_agent_id r, bu_currency r) = (bu_agent_id b, bu_currency b))"
    using assms(3) by (auto simp: is_budget_def fun_eq_iff)
  then show ?thesis
    using find_row_key [of "\<lambda>r. (bu_agent_id r, bu_currency r)" "budgets d" b] assms(1,2)
    by (simp add: tables_ok_def budgets_ok_def)
qed

lemma find_request_kept:
  assumes "tables_ok d" and "t \<in> set (hitl_transactions d)"
  shows "find_by_id (hi_id t) d = Inr (Some t)"
  using assms find_row_key [of hi_id "hitl_transactions d" t] by (simp add: find_by_id_def tables_ok_def)

lemma apply_set_budget:
  assumes "tables_ok d" and "b \<in> set (budgets d)" and "flush_budget b (f b) b = f b"
  shows "apply_change P (SetBudget b (f b)) d
    = d\<lparr>budgets := update_rows (\<lambda>r. bu_id r = bu_id b) f (budgets d)\<rparr>"
  using update_rows_cong_key [of bu_id "budgets d" b "flush_budget b (f b)" f] assms
  by (simp add: tables_ok_def budgets_ok_def)

lemma apply_set_request:
  assumes "tables_ok d" and "t \<in> set (hitl_transactions d)" and "flush_request t (f t) t = f t"
  shows "apply_change P (SetRequest t (f t)) d = update_hitl (hi_id t) f d"
  using update_rows_cong_key [of hi_id "hitl_transactions d" t "flush_request t (f t)" f] assms
  by (simp add: tables_ok_def update_hitl_def)

lemma statement_step:
  assumes "statement S d0 ch" and "tables_ok d" and "row_kept ch d" and "\<not> clashes ch d"
  shows "db_step S d (apply_change (sv_platform S) ch d)"
  using assms(1)
proof (cases rule: statement.cases)
  case (charges a c w b x b' w')
  from charges(5) obtain t where "bu_active b" and "\<not> bu_limit_amount b < bu_consumed_amount b + x"
    and b': "b' = consume b x t b"
    by (rule commit_Inr) (use charges(3) in auto)
  moreover have "is_budget a c b" using find_row_Some [OF charges(3)] by blast
  moreover have b: "b \<in> set (budgets d)" using assms(3) charges(2) by simp
  ultimately show ?thesis
    unfolding charges(2) b' apply_set_budget [OF assms(2) b, of "consume b x t", OF flush_same(1)]
    using charges(4) by (intro budget_committed find_budget_kept assms(2))
next
  case (sets_limit a payload w b now b' w')
  have b: "b \<in> set (budgets d)" using assms(3) sets_limit(2) by simp
  have "is_budget a (bp_currency payload) b" using find_row_Some [OF sets_limit(3)] by blast
  with b upsert_found [OF sets_limit(5,3)] sets_limit(4) show ?thesis
    unfolding sets_limit(2)
    using apply_set_budget [OF assms(2) b, of "set_limit payload now" "sv_platform S", OF flush_same(2)]
    by (auto intro!: limit_set find_budget_kept assms(2))
next
  case (creates_budget a payload w now b' w')
  obtain i where "b' = new_budget a payload now i"
    using upsert_missing [OF creates_budget(5,3)] by blast
  then show ?thesis using assms(4) creates_budget(2,4) by (auto intro: budget_created)
next
  case (expires i t n now)
  then have t: "t \<in> set (hitl_transactions d)" using assms(3) by simp
  show ?thesis
    unfolding expires(1)
      apply_set_request [OF assms(2) t, of "\<lambda>q. q\<lparr>hi_status := EXPIRED, hi_resolved_at := Some n, hi_updated_at := n\<rparr>", OF flush_same(3)]
    by (rule hitl_expired [OF find_request_kept [OF assms(2) t] expires(3)])
next
  case (resolves i t now payload reviewer)
  then have t: "t \<in> set (hitl_transactions d)" using assms(3) by simp
  show ?thesis
    unfolding resolves(1)
      apply_set_request [OF assms(2) t, of "resolved payload reviewer (stored_time (sv_platform S) now)", OF flush_same(4)]
    by (rule hitl_resolved [OF find_request_kept [OF assms(2) t] resolves(3,4)])
next
  case (requests t intent decision now i)
  then show ?thesis using assms(4) by (auto intro: hitl_requested simp: new_hitl_def)
next
  case (registers a body now)
  then show ?thesis using assms(4) by (auto intro: agent_registered)
next
  case (creates_policy p body now i)
  then show ?thesis using assms(4) by (auto intro: policy_created)
qed

text \<open>The entries of a session, one by one, when the constraints admit them.\<close>

lemma distinct_entries_append: "distinct_entries (l @ l') \<Longrightarrow> distinct_entries l"
  by (simp add: distinct_entries_def)

lemma audit_steps_db_steps:
  assumes "audit_steps (sv_platform S) (audit_hmac_key (sv_settings S)) l l'" and "distinct_entries l'"
  shows "db_steps S (d\<lparr>audit_logs := l\<rparr>) (d\<lparr>audit_logs := l'\<rparr>)"
  using assms
proof (induction rule: rtranclp_induct)
  case (step l' l'')
  from step.hyps(2) obtain e a p t i where names: "e \<noteq> []" "length e \<le> 128" "a \<noteq> []" "length a \<le> 128" "aware t"
    and l'': "l'' = l' @ [stored_entry (sv_platform S)
      (new_entry (sv_platform S) (audit_hmac_key (sv_settings S)) e a p (last_entry l') t i)]" (is "_ = _ @ [stored_entry _ ?q]")
    by (auto simp: audit_step_def)
  have "\<not> audit_clash ?q (d\<lparr>audit_logs := l'\<rparr>)"
    using step.prems unfolding l'' by (auto simp: distinct_entries_def audit_clash_def list_ex_iff image_iff)
  then have "db_step S (d\<lparr>audit_logs := l'\<rparr>) (d\<lparr>audit_logs := l''\<rparr>)"
    using audit_appended [OF names, of ?q S p "d\<lparr>audit_logs := l'\<rparr>" i] by (simp add: l'')
  moreover have "db_steps S (d\<lparr>audit_logs := l\<rparr>) (d\<lparr>audit_logs := l'\<rparr>)"
    using step.IH step.prems by (auto simp: l'' intro: distinct_entries_append)
  ultimately show ?case by (rule rtranclp.rtrancl_into_rtrancl [rotated])
qed simp

subsection \<open>Invariant of the sessions\<close>

lemma apply_change_logs [simp]: "audit_logs (apply_change P ch d) = audit_logs d"
  by (cases ch) simp_all

lemma written_logs [simp]: "audit_logs (written P s d) = audit_logs d"
  by (simp add: written_def split: option.split)

lemma view_logs [simp]: "audit_logs (session_view P s d) = audit_logs d @ se_audit s"
  by (simp add: session_view_def)

lemma row_kept_logs [simp]: "row_kept ch (d\<lparr>audit_logs := l\<rparr>) = row_kept ch d"
  by (cases ch) simp_all

lemma row_kept_other:
  assumes "row_kept ch d" and "apart (locked_row ch) (lock_of s)"
  shows "row_kept ch (session_view P s d)"
proof -
  have "row_kept ch (written P s d)"
  proof (cases "se_change s")
    case (Some own)
    then have "apart (locked_row ch) (locked_row own)" using assms(2) by (simp add: lock_of_def)
    then show ?thesis using assms(1) unfolding written_def Some
      by (cases ch; cases own) (auto simp: apart_def intro!: update_rows_keeps)
  qed (use assms(1) in \<open>simp add: written_def\<close>)
  then show ?thesis by (simp add: session_view_def)
qed

definition transactions_ok :: "service \<Rightarrow> service_sessions \<Rightarrow> bool" where
  "transactions_ok S x \<longleftrightarrow> (case x of (d, own) \<Rightarrow> tables_ok d \<and> numbered (audit_logs d)
     \<and> (\<forall>s. current (sv_platform S) (audit_hmac_key (sv_settings S)) (audit_logs d) (se_audit (own s)))
     \<and> (\<forall>s ch. se_change (own s) = Some ch \<longrightarrow> (\<exists>d0. statement S d0 ch) \<and> row_kept ch d)
     \<and> (\<forall>s t. s \<noteq> t \<longrightarrow> apart (lock_of (own s)) (lock_of (own t))))"

lemma transactions_okD:
  assumes "transactions_ok S (d, own)"
  shows "tables_ok d" and "numbered (audit_logs d)"
    and "current (sv_platform S) (audit_hmac_key (sv_settings S)) (audit_logs d) (se_audit (own s))"
    and "se_change (own s) = Some ch \<Longrightarrow> (\<exists>d0. statement S d0 ch) \<and> row_kept ch d"
    and "s \<noteq> t \<Longrightarrow> apart (lock_of (own s)) (lock_of (own t))"
  using assms by (simp_all add: transactions_ok_def)

lemma idle_sel [simp]: "se_change idle = None" "se_audit idle = []" "lock_of idle = None"
  by (simp_all add: idle_def lock_of_def)

lemma apart_None [simp]: "apart None y" "apart x None"
  by (auto simp: apart_def)

lemma apart_sym: "apart x y = apart y x"
  by (auto simp: apart_def)

lemma transactions_ok_idle: "tables_ok d \<Longrightarrow> numbered (audit_logs d) \<Longrightarrow> transactions_ok S (d, \<lambda>_. idle)"
  by (simp add: transactions_ok_def)

lemma commit_steps:
  assumes "transactions_ok S (d, own)" and "admitted (own s) d"
  shows "db_steps S d (session_view (sv_platform S) (own s) d)"
proof -
  let ?P = "sv_platform S" and ?key = "audit_hmac_key (sv_settings S)" and ?w = "written (sv_platform S) (own s) d"
  have "db_steps S d ?w"
  proof (cases "se_change (own s)")
    case (Some ch)
    then obtain d0 where "statement S d0 ch" and "row_kept ch d" and "tables_ok d"
      using transactions_okD(1,4) [OF assms(1)] by blast
    moreover have "\<not> clashes ch d" using assms(2) Some by (simp add: admitted_def)
    ultimately have "db_step S d (apply_change (sv_platform S) ch d)" by (intro statement_step)
    then show ?thesis by (simp add: written_def Some db_stepsI)
  qed (simp add: written_def)
  moreover have "audit_steps ?P ?key (audit_logs ?w) (audit_logs d @ se_audit (own s))"
    using assms current_commit [of ?P ?key "audit_logs d" "se_audit (own s)"]
    by (simp add: transactions_ok_def admitted_def distinct_entries_def)
  then have "db_steps S (?w\<lparr>audit_logs := audit_logs ?w\<rparr>) (session_view ?P (own s) d)"
    unfolding session_view_def using assms(2) by (intro audit_steps_db_steps) (simp_all add: admitted_def)
  moreover have "?w\<lparr>audit_logs := audit_logs ?w\<rparr> = ?w" by (cases ?w) simp
  ultimately show ?thesis by (metis rtranclp_trans)
qed

lemma numbered_view:
  assumes "transactions_ok S (d, own)" and "admitted (own s) d"
  shows "numbered (audit_logs (session_view (sv_platform S) (own s) d))"
  using assms audit_steps_numbered [OF current_commit, of "sv_platform S" "audit_hmac_key (sv_settings S)" "audit_logs d" "se_audit (own s)"]
  by (simp add: transactions_ok_def admitted_def distinct_entries_def)

lemma transaction_step_ok:
  assumes "transaction_step S True x y" and "transactions_ok S x"
  shows "transactions_ok S y \<and> db_steps S (fst x) (fst y)"
  using assms(1)
proof (cases rule: transaction_step.cases)
  case (writes own s d ch)
  have "statement S d0 ch \<Longrightarrow> row_kept ch d" if "d0 = session_view (sv_platform S) (own s) d" for d0
    using statement_kept [of S d0 ch] writes(3) that by (simp add: session_view_def written_def)
  then have kept: "row_kept ch d" using writes(4) by blast
  have "\<forall>t. t \<noteq> s \<longrightarrow> apart (locked_row ch) (lock_of (own t))" using writes(5) by simp
  then show ?thesis
    using assms(2) kept writes(4) unfolding writes(1,2)
    by (auto simp: transactions_ok_def lock_of_def apart_sym)
next
  case (appends w own s d e a p r w' rows)
  have "current (sv_platform S) (audit_hmac_key (sv_settings S)) (audit_logs d) rows"
    using current_append [OF _ _ appends(4), of "audit_logs d" "se_audit (own s)"] appends(3,5) assms(2)
    by (simp add: transactions_ok_def appends(1))
  then show ?thesis
    using assms(2) unfolding appends(1,2) by (simp add: transactions_ok_def lock_of_def)
next
  case (commits own s d)
  let ?d = "session_view (sv_platform S) (own s) d"
  have ok: "transactions_ok S (d, own)" using assms(2) commits(1) by simp
  note steps = commit_steps [OF ok commits(3)]
  have "tables_ok ?d"
    using steps_invariant [of S tables_ok d ?d] steps step_tables_ok [of S] ok
    by (auto simp: transactions_ok_def)
  moreover have "row_kept ch ?d" if "t \<noteq> s" "se_change (own t) = Some ch" for t ch
    using transactions_okD(4) [OF ok that(2)] transactions_okD(5) [OF ok that(1)] that(2)
    by (intro row_kept_other) (simp_all add: lock_of_def)
  moreover have "current (sv_platform S) (audit_hmac_key (sv_settings S)) (audit_logs ?d) (se_audit (own t))" for t
    using ok current_other by (simp add: transactions_ok_def)
  ultimately have "transactions_ok S (?d, own(s := idle))"
    using ok numbered_view [OF ok commits(3)] by (auto simp: transactions_ok_def)
  then show ?thesis using steps commits(1,2) by simp
next
  case (rolls_back d own s)
  then show ?thesis using assms(2) by (auto simp: transactions_ok_def)
qed

lemma transactions_serialise:
  assumes "(transaction_step S True)\<^sup>*\<^sup>* x y" and "transactions_ok S x"
  shows "transactions_ok S y \<and> db_steps S (fst x) (fst y)"
  using assms
proof (induction rule: rtranclp_induct)
  case (step y z)
  then show ?case using transaction_step_ok [OF step.hyps(2)] by (meson rtranclp_trans)
qed simp

lemma view_idle [simp]: "session_view P idle d = d"
  by (simp add: session_view_def written_def)

lemma session_writes:
  assumes "own s = idle" and "statement S d ch"
    and "locking \<Longrightarrow> \<forall>t. t \<noteq> s \<longrightarrow> apart (locked_row ch) (lock_of (own t))"
  shows "transaction_step S locking (d, own) (d, own(s := idle\<lparr>se_change := Some ch\<rparr>))"
  using transaction_step.writes [of own s S d ch locking] assms by simp

lemma session_commits:
  assumes "own s = idle\<lparr>se_change := Some ch\<rparr>" and "distinct_entries (audit_logs d)" and "\<not> clashes ch d"
  shows "transaction_step S locking (d, own) (apply_change (sv_platform S) ch d, own(s := idle))"
proof -
  let ?d = "apply_change (sv_platform S) ch d"
  have "?d\<lparr>audit_logs := audit_logs ?d\<rparr> = ?d" by (cases ?d) simp
  then have "session_view (sv_platform S) (own s) d = ?d" by (simp add: session_view_def written_def assms(1))
  moreover have "admitted (own s) d" using assms by (simp add: admitted_def)
  ultimately show ?thesis using transaction_step.commits [of own s d S locking] by simp
qed

text \<open>Two sessions that read the same database and write before either commits.\<close>

lemma both_write:
  assumes "statement S d ch" and "statement S d ch'" and "distinct_entries (audit_logs d)"
    and "\<not> clashes ch d" and "\<not> clashes ch' (apply_change (sv_platform S) ch d)"
    and "locking \<Longrightarrow> apart (locked_row ch') (locked_row ch)"
  shows "(transaction_step S locking)\<^sup>*\<^sup>* (d, \<lambda>_. idle)
    (apply_change (sv_platform S) ch' (apply_change (sv_platform S) ch d), \<lambda>_. idle)"
proof -
  let ?s = "idle\<lparr>se_change := Some ch\<rparr>" and ?t = "idle\<lparr>se_change := Some ch'\<rparr>"
  let ?d = "apply_change (sv_platform S) ch d"
  have zero: "((\<lambda>_. idle)(0 :: nat := ?s, 1 := ?t))(0 := idle) = (\<lambda>_. idle)(1 := ?t)"
    and one: "((\<lambda>_. idle)(1 :: nat := ?t))(1 := idle) = (\<lambda>_. idle)"
    by (rule ext, simp)+
  have "(transaction_step S locking)\<^sup>*\<^sup>* (d, \<lambda>_. idle) (d, (\<lambda>_. idle)(0 := ?s))"
    by (intro r_into_rtranclp session_writes) (use assms in \<open>simp_all add: lock_of_def\<close>)
  also have "transaction_step S locking (d, (\<lambda>_. idle)(0 := ?s)) (d, (\<lambda>_. idle)(0 := ?s, 1 := ?t))"
    by (rule session_writes) (use assms in \<open>simp_all add: lock_of_def\<close>)
  also have "transaction_step S locking (d, (\<lambda>_. idle)(0 := ?s, 1 := ?t)) (?d, (\<lambda>_. idle)(1 := ?t))"
    using session_commits [of "(\<lambda>_. idle)(0 := ?s, 1 := ?t)" 0 ch d S locking, unfolded zero] assms(3,4)
    by simp
  also have "transaction_step S locking (?d, (\<lambda>_. idle)(1 := ?t)) (apply_change (sv_platform S) ch' ?d, \<lambda>_. idle)"
    using session_commits [of "(\<lambda>_. idle)(1 := ?t)" 1 ch' ?d S locking, unfolded one] assms(3,5) by simp
  finally show ?thesis .
qed

lemma sample_charge:
  assumes "x \<in> {Dec 60 0, Dec 45 0}"
  shows "\<exists>b w'. commit ''agent-1'' ''USD'' x sample_world = (Inr b, w')"
proof -
  have "\<not> isl (fst (commit ''agent-1'' ''USD'' (Dec 60 0) sample_world))"
    "\<not> isl (fst (commit ''agent-1'' ''USD'' (Dec 45 0) sample_world))" by code_simp+
  then have "\<not> isl (fst (commit ''agent-1'' ''USD'' x sample_world))" using assms by auto
  then show ?thesis by (cases "commit ''agent-1'' ''USD'' x sample_world"; cases "fst (commit ''agent-1'' ''USD'' x sample_world)") auto
qed

lemma sample_sessions_ok:
  "tables_ok (w_db sample_world)" "distinct_entries (audit_logs (w_db sample_world))"
  "find_row (is_budget ''agent-1'' ''USD'') (budgets (w_db sample_world)) = Inr (Some sample_budget)"
  "amount_field (Dec 60 0) = Inr (Dec 60 0)" "amount_field (Dec 45 0) = Inr (Dec 45 0)"
proof -
  show "find_row (is_budget ''agent-1'' ''USD'') (budgets (w_db sample_world)) = Inr (Some sample_budget)"
    "amount_field (Dec 60 0) = Inr (Dec 60 0)" "amount_field (Dec 45 0) = Inr (Dec 45 0)" by code_simp+
qed (simp_all add: tables_ok_def budgets_ok_def budget_ok_def sample_world_def sample_database_def
    sample_budget_def sample_policy_def sample_policy_2_def distinct_entries_def money_def dval_def pair_of_def sval_def)

subsection \<open>Properties\<close>

text \<open>
  C8: Serialisability: however the statements of the sessions interleave, what they have committed is
  what a sequence of the steps of the service leads to, and the tables keep their
  constraints: no two charges of a budget both rest on the same balance, no request is both
  approved and expired, no audit entry is chained to an entry that was not the last.
\<close>

theorem interleavings_serialise:
  assumes "(transaction_step S True)\<^sup>*\<^sup>* (d0, \<lambda>_. idle) (d, own)"
    and "tables_ok d0" and "numbered (audit_logs d0)"
  shows "db_steps S d0 d \<and> tables_ok d \<and> numbered (audit_logs d)"
  using transactions_serialise [OF assms(1) transactions_ok_idle [OF assms(2,3)]]
  by (simp add: transactions_ok_def)

lemma interleavings_serialise_witness:
  "\<exists>d b. db_steps sample_service sample_database d \<and> length (hitl_transactions d) = 1
     \<and> bu_consumed_amount b = Dec 60 0 \<and> b \<in> set (budgets d)"
proof -
  obtain b w' where com: "commit ''agent-1'' ''USD'' (Dec 60 0) sample_world = (Inr b, w')"
    using sample_charge by blast
  let ?t = "new_hitl sample_settings (sample_intent (Dec 70 0)) sample_allow sample_time ''hitl-1''"
  let ?ch = "SetBudget sample_budget b"
  let ?d = "apply_change sample_platform (AddRequest ?t) (apply_change sample_platform ?ch sample_database)"
  have db: "w_db sample_world = sample_database" by (simp add: sample_world_def)
  have "statement sample_service sample_database ?ch"
    using charges [OF sample_sessions_ok(3,4) com, of sample_service] by (simp add: db)
  moreover have "statement sample_service sample_database (AddRequest ?t)"
    by (rule requests [where intent = "sample_intent (Dec 70 0)" and decision = sample_allow and now = sample_time and i = "''hitl-1''"])
      (simp_all add: hitl_clash_def sample_database_def sample_service_def)
  ultimately have "(transaction_step sample_service True)\<^sup>*\<^sup>* (sample_database, \<lambda>_. idle) (?d, \<lambda>_. idle)"
    using both_write [of sample_service sample_database ?ch "AddRequest ?t" True] sample_sessions_ok(2) db
    by (simp add: sample_service_def hitl_clash_def sample_database_def)
  from interleavings_serialise [OF this] have "db_steps sample_service sample_database ?d"
    using sample_sessions_ok(1) by (simp add: db numbered_def sample_database_def)
  moreover from com obtain t where b: "b = consume sample_budget (Dec 60 0) t sample_budget"
    by (rule commit_Inr) (use sample_sessions_ok(3) in auto)
  then have "b \<in> set (budgets ?d)" by (simp add: sample_database_def update_rows_def)
  moreover have "Dec 0 0 + Dec 60 0 = Dec 60 0" by code_simp
  then have "bu_consumed_amount b = Dec 60 0" by (simp add: b sample_budget_def)
  ultimately show ?thesis by (intro exI [of _ ?d] exI [of _ b]) (simp add: sample_database_def)
qed

text \<open>
  C36: Without row locks a charge is lost: when the database does not honour \<open>with_for_update()\<close>, two
  executions that commit an amount each on the same budget can both return and both be committed,
  and the budget has then consumed the second amount only, whatever the two come to.
\<close>

theorem unlocked_charge_is_lost:
  assumes "tables_ok (w_db w)" and "distinct_entries (audit_logs (w_db w))" and "w_db v = w_db w"
    and "amount_field x = Inr x" and "commit a c x w = (Inr b1, w1)"
    and "amount_field y = Inr y" and "commit a c y v = (Inr b2, v1)"
  shows "\<exists>b b' d. (transaction_step S False)\<^sup>*\<^sup>* (w_db w, \<lambda>_. idle) (d, \<lambda>_. idle)
    \<and> find_row (is_budget a c) (budgets (w_db w)) = Inr (Some b)
    \<and> find_row (is_budget a c) (budgets d) = Inr (Some b')
    \<and> dval (bu_consumed_amount b') = dval (bu_consumed_amount b) + dval y"
proof -
  from assms(5) obtain b t where b: "find_row (is_budget a c) (budgets (w_db w)) = Inr (Some b)"
    and b1: "b1 = consume b x t b" by (rule commit_Inr) auto
  from assms(7) obtain u where b2: "b2 = consume b y u b" and cap: "\<not> bu_limit_amount b < bu_consumed_amount b + y"
    by (rule commit_Inr) (use b assms(3) in auto)
  let ?P = "sv_platform S"
  let ?d = "apply_change ?P (SetBudget b b2) (apply_change ?P (SetBudget b b1) (w_db w))"
  have "statement S (w_db w) (SetBudget b b1)" by (rule charges [OF b assms(4,5)])
  moreover have "statement S (w_db w) (SetBudget b b2)"
    using charges [of a c v b y b2 v1 S] b assms(3,6,7) by simp
  ultimately have run: "(transaction_step S False)\<^sup>*\<^sup>* (w_db w, \<lambda>_. idle) (?d, \<lambda>_. idle)"
    using assms(2) by (intro both_write) simp_all
  have "find_row (is_budget a c) (budgets ?d) = Inr (Some (flush_budget b b2 (flush_budget b b1 b)))"
    unfolding apply_change.simps
    by (simp, intro find_row_update_found b) (simp_all add: flush_budget_def is_budget_def)
  moreover have "budget_ok b"
    using find_row_Some [OF b] assms(1) by (simp add: tables_ok_def budgets_ok_def)
  then have sum: "dval (bu_consumed_amount b2) = dval (bu_consumed_amount b) + dval y"
    unfolding b2 using amount_field_money [OF assms(6)] cap by (intro consume_ok(2)) auto
  moreover have "bu_consumed_amount b2 \<noteq> bu_consumed_amount b"
    using sum amount_field_money [OF assms(6)] by auto
  then have "bu_consumed_amount (flush_budget b b2 (flush_budget b b1 b)) = bu_consumed_amount b2"
    by (simp add: flush_budget_def changed_def)
  ultimately show ?thesis using run b by metis
qed

lemma unlocked_charge_is_lost_witness:
  "\<exists>d b. (transaction_step sample_service False)\<^sup>*\<^sup>* (sample_database, \<lambda>_. idle) (d, \<lambda>_. idle)
     \<and> find_row (is_budget ''agent-1'' ''USD'') (budgets d) = Inr (Some b) \<and> dval (bu_consumed_amount b) = 45"
proof -
  obtain b1 b2 w1 w2 where com: "commit ''agent-1'' ''USD'' (Dec 60 0) sample_world = (Inr b1, w1)"
    "commit ''agent-1'' ''USD'' (Dec 45 0) sample_world = (Inr b2, w2)"
    using sample_charge [of "Dec 60 0"] sample_charge [of "Dec 45 0"] by auto
  from unlocked_charge_is_lost [OF sample_sessions_ok(1,2) refl sample_sessions_ok(4) com(1)
      sample_sessions_ok(5) com(2), of sample_service]
  obtain b b' d where run: "(transaction_step sample_service False)\<^sup>*\<^sup>* (w_db sample_world, \<lambda>_. idle) (d, \<lambda>_. idle)"
    and b: "find_row (is_budget ''agent-1'' ''USD'') (budgets (w_db sample_world)) = Inr (Some b)"
    and b': "find_row (is_budget ''agent-1'' ''USD'') (budgets d) = Inr (Some b')"
    and sum: "dval (bu_consumed_amount b') = dval (bu_consumed_amount b) + dval (Dec 45 0)"
    by blast
  have "b = sample_budget" using b sample_sessions_ok(3) by simp
  moreover have "dval (bu_consumed_amount sample_budget) = 0" "dval (Dec 45 0) = 45"
    by (simp_all add: sample_budget_def dval_def pair_of_def sval_def)
  ultimately have "dval (bu_consumed_amount b') = 45" using sum by simp
  moreover have "w_db sample_world = sample_database" by (simp add: sample_world_def)
  ultimately show ?thesis using run b' by metis
qed

end
