(* ===== verification/Settlement.thy ===== *)
theory Settlement
  imports Interceptor_Frame
begin

text \<open>
  What a whole run of the interceptor charges: evaluation, waiting and the record of a failure
  leave the budgets alone, and the settlement charges exactly the amount or nothing.
\<close>

definition same_budgets :: "database \<Rightarrow> database \<Rightarrow> bool" where
  "same_budgets d e \<longleftrightarrow> budgets e = budgets d"

interpretation ledger: interceptor_relation same_budgets S for S
  by unfold_locales (simp_all add: same_budgets_def update_hitl_def)

lemma outer_budgets: "obeys ledger.outer m \<Longrightarrow> m w = (r, w') \<Longrightarrow> budgets (w_db w') = budgets (w_db w)"
  using ledger.outer_db [of m w] by (simp add: same_budgets_def)

text \<open>A tool that does not write to the budgets table.\<close>

definition leaves_budgets :: "'r tool \<Rightarrow> bool" where
  "leaves_budgets tool \<longleftrightarrow> (\<forall>w. budgets (w_db (snd (tool w))) = budgets (w_db w))"

text \<open>The budget of the intent after a charge of \<open>x\<close>.\<close>

definition charged :: "execution_intent \<Rightarrow> dec \<Rightarrow> string \<Rightarrow> database \<Rightarrow> database \<Rightarrow> bool" where
  "charged i x c d e \<longleftrightarrow> (\<exists>b b'. find_row (is_budget (in_agent_id i) c) (budgets d) = Inr (Some b)
     \<and> find_row (is_budget (in_agent_id i) c) (budgets e) = Inr (Some b')
     \<and> bu_consumed_amount b' = bu_consumed_amount b + x \<and> \<not> bu_limit_amount b' < bu_consumed_amount b'
     \<and> bu_limit_amount b' = bu_limit_amount b \<and> bu_version b' = bu_version b + 1)"

lemma run_tool_charges:
  assumes "leaves_budgets tool" and "in_requested_amount i = Some x" and "in_currency i = Some c"
    and "run_tool S i a tool w = (r, w')"
  shows "case r of Inr (Some _) \<Rightarrow> charged i x c (w_db w) (w_db w') | _ \<Rightarrow> budgets (w_db w') = budgets (w_db w)"
proof -
  obtain out w1 where tool: "tool w = (out, w1)" by fastforce
  then have b1: "budgets (w_db w1) = budgets (w_db w)" using assms(1) by (metis leaves_budgets_def snd_conv)
  show ?thesis
  proof (cases out)
    case (Inl failure)
    obtain ty s where f: "failure = (ty, s)" by fastforce
    obtain q v where rec: "record_execution_failure S i a ty s w1 = (q, v)" by fastforce
    from outer_budgets [OF ledger.outer_record_execution_failure rec] show ?thesis
      using assms(4) tool Inl f rec b1
      by (cases q) (auto simp: run_tool_def bindE_def raise_def)
  next
    case (Inr y)
    obtain q v where com: "commit_execution S i a w1 = (q, v)" by fastforce
    show ?thesis
    proof (cases q)
      case Inl
      then show ?thesis using commit_execution_atomic com assms(4) tool Inr b1
        by (auto simp: run_tool_def bindE_def)
    next
      case (Inr u)
      then have "charged i x c (w_db w1) (w_db v)"
        unfolding charged_def using com assms(2,3) by (intro commit_execution_exact) auto
      then show ?thesis using com assms(4) tool \<open>out = Inr y\<close> Inr b1
        by (auto simp: run_tool_def bindE_def ret_def charged_def)
    qed
  qed
qed

lemma execution_charges:
  assumes "others_along same_budgets sched" and "leaves_budgets tool"
    and "in_requested_amount i = Some x" and "in_currency i = Some c"
    and "execute_tool S sched i a tool w = (r, w')"
  shows "case r of Inr (Some _) \<Rightarrow> charged i x c (w_db w) (w_db w') | _ \<Rightarrow> budgets (w_db w') = budgets (w_db w)"
proof -
  obtain q v where ev: "evaluate_or_wait S sched i a w = (q, v)" by fastforce
  note same = outer_budgets [OF ledger.outer_evaluate_or_wait [OF assms(1)] ev]
  show ?thesis
  proof (cases "\<exists>d. q = Inr (Some d) \<and> pd_outcome d = Allow")
    case True
    then have "run_tool S i a tool v = (r, w')"
      using assms(5) ev by (auto simp: execute_tool_def bindE_def)
    from run_tool_charges [OF assms(2-4) this] same show ?thesis
      by (auto simp: charged_def split: sum.splits option.splits)
  next
    case False
    then show ?thesis using assms(5) ev same
      by (auto simp: execute_tool_def bindE_def ret_def raise_def split: sum.splits option.splits if_splits)
  qed
qed

text \<open>
  C5: A run of the interceptor charges the budget of its intent if and only if it returns a result:
  then the consumed amount grows by exactly the requested amount, within the limit, and
  otherwise (a denial, a rejection, a timeout, a tool that fails, a settlement that fails, or
  still waiting) no budget changes; given that nobody else writes to the budgets meanwhile.
\<close>

theorem execution_charges_exactly:
  assumes "others_along same_budgets sched" and "leaves_budgets tool"
    and "in_requested_amount i = Some x" and "in_currency i = Some c"
    and "execute_tool S sched i a tool w = (r, w')"
  shows "case r of Inr (Some _) \<Rightarrow> charged i x c (w_db w) (w_db w') | _ \<Rightarrow> budgets (w_db w') = budgets (w_db w)"
  using assms by (rule execution_charges)

text \<open>An agent asks for an action it is not permitted.\<close>

definition sample_forbidden :: execution_intent where
  "sample_forbidden = (sample_intent (Dec 20 0))\<lparr>in_action := ''steal''\<rparr>"

lemma denied_run_charges_nothing:
  "\<exists>w'. execute_tool sample_service sample_schedule sample_forbidden ''alice'' (\<lambda>w. (Inr (), w)) sample_world
      = (Inl (ExecutionDeniedError ''Action is not allowed for agent''), w') \<and> budgets (w_db w') = [sample_budget]"
proof -
  have "fst (evaluate sample_forbidden sample_world) = Inr (denial_decision ''Action is not allowed for agent'')"
    by code_simp
  from sample_immediate [OF this] obtain w' where
    "evaluate_or_wait sample_service sample_schedule sample_forbidden ''alice'' sample_world
      = (Inr (Some (denial_decision ''Action is not allowed for agent'')), w')"
    by (auto simp: denial_decision_def)
  moreover have "model_strip ''Action is not allowed for agent'' = ''Action is not allowed for agent''" by code_simp
  ultimately have run: "execute_tool sample_service sample_schedule sample_forbidden ''alice'' (\<lambda>w. (Inr (), w)) sample_world
      = (Inl (ExecutionDeniedError ''Action is not allowed for agent''), w')"
    by (simp add: execute_tool_def bindE_def raise_def denial_decision_def)
  have "others_along same_budgets sample_schedule"
    by (simp add: others_along_def same_budgets_def sample_schedule_def idle_poll_def)
  from execution_charges [OF this _ _ _ run, of "Dec 20 0" "''USD''"] run show ?thesis
    by (simp add: leaves_budgets_def sample_forbidden_def sample_intent_def sample_database_def)
qed

end
