(* ===== verification/Allowed_Execution.thy ===== *)
theory Allowed_Execution
  imports Settlement
begin

text \<open>
  The run that succeeds: an allowed intent is reserved, its tool runs, and the amount is committed.
  The state that the reservation needs is followed through the evaluation, which itself writes
  the Redis key when it is missing.
\<close>

subsection \<open>What the steps before the reservation keep\<close>

definition reservable :: "int \<Rightarrow> string \<Rightarrow> string \<Rightarrow> int \<Rightarrow> int \<Rightarrow> world \<Rightarrow> bool" where
  "reservable T a c left v w \<longleftrightarrow> open_budget w a c left \<and> steady T w \<and> balance w T a c left v"

definition keeps_reservable :: "int \<Rightarrow> string \<Rightarrow> string \<Rightarrow> int \<Rightarrow> int \<Rightarrow> world \<Rightarrow> world \<Rightarrow> bool" where
  "keeps_reservable T a c left v w w' \<longleftrightarrow> (reservable T a c left v w \<longrightarrow> reservable T a c left v w')"

interpretation reservable: effect_relation "keeps_reservable T a c left v" for T a c left v
  by unfold_locales (auto simp: keeps_reservable_def)

lemma reservable_tick: "obeys (keeps_reservable T a c left v) tick"
  by (auto simp: obeys_def keeps_reservable_def reservable_def open_budget_def steady_def balance_def tick_def)

lemma reservable_execute: "obeys (keeps_reservable T a c left v) (execute q)"
  by (simp add: obeys_def execute_def keeps_reservable_def)

lemma reservable_remaining: "obeys (keeps_reservable T a c left v) (remaining a c)"
  unfolding obeys_def keeps_reservable_def
proof (intro allI impI)
  fix w :: world
  assume w: "reservable T a c left v w"
  then obtain b where b: "find_row (is_budget a c) (budgets (w_db w)) = Inr (Some b)" "bu_active b"
    and left: "whole_amount (bu_limit_amount b - bu_consumed_amount b) left" "w_session_ok w" "0 \<le> left"
    by (auto simp: reservable_def open_budget_def)
  let ?left = "bu_limit_amount b - bu_consumed_amount b" and ?key = "budget_key a c"
  have nn: "\<not> ?left < 0" using left by (simp add: dec_less_iff whole_amount_def)
  let ?t = "w_clock w (w_ticks w)"
  have t: "T \<le> ?t" "?t < T + window" using w by (simp_all add: reservable_def steady_def)
  show "reservable T a c left v (snd (remaining a c w))"
  proof (cases "w_kv w ?key")
    case None
    then have "w_kv (snd (remaining a c w)) = (w_kv w)(?key \<mapsto> (dec_str ?left, w_clock w (Suc (w_ticks w)) + window))
        \<and> w_db (snd (remaining a c w)) = w_db w \<and> w_session_ok (snd (remaining a c w))
        \<and> w_clock (snd (remaining a c w)) = w_clock w \<and> w_ticks (snd (remaining a c w)) = w_ticks w + 3"
      using b left(2) nn
      by (simp add: remaining_def get_budget_def execute_def redis_get_def redis_set_nx_def eff_simps tick_def
          live_value_def put_value_def window_def Let_def split: sum.split)
    moreover have "T \<le> w_clock w (Suc (w_ticks w))" using w by (simp add: reservable_def steady_def)
    moreover have "v = left" using w None by (simp add: reservable_def balance_def)
    ultimately show ?thesis
      using w whole_denotes [OF left(1)] by (simp add: reservable_def open_budget_def steady_def balance_def)
  next
    case (Some p)
    then obtain s expiry where p: "w_kv w ?key = Some (s, expiry)" by (cases p) auto
    have "?t < expiry" using w t p by (simp add: reservable_def balance_def)
    then have "snd (remaining a c w) = w\<lparr>w_ticks := Suc (w_ticks w)\<rparr>"
      using b left(2) p
      by (simp add: remaining_def get_budget_def execute_def redis_get_def eff_simps tick_def live_value_def Let_def
          split: sum.split)
    then show ?thesis using w by (simp add: reservable_def open_budget_def steady_def balance_def)
  qed
qed

lemma reservable_evaluate:
  assumes "in_requested_amount i = Some x" and "in_currency i = Some c"
  shows "obeys (keeps_reservable T (in_agent_id i) c left v) (evaluate i)"
  unfolding evaluate_def denial_def budget_results_def case_prod_beta assms option.case
  by (intro reservable.obeys_intros reservable_execute reservable_remaining)

lemma append_world:
  assumes "append P key e a p w = (Inr q, w')"
  shows "w_kv w' = w_kv w \<and> w_clock w' = w_clock w \<and> w_ticks w \<le> w_ticks w' \<and> budgets (w_db w') = budgets (w_db w)"
  using assms
  by (auto simp: append_def execute_def bindE_def now_utc_def tick_def uuid4_def add_and_flush_def
      ret_def raise_def Let_def split: if_splits)

lemma reservable_append:
  assumes "append P key e a' p w = (Inr q, w')" and "reservable T a c left v w"
  shows "reservable T a c left v w'"
  using append_world [OF assms(1)] append_Inr(6) [OF assms(1)] assms(2)
  by (auto simp: reservable_def open_budget_def steady_def balance_def)

text \<open>Only an append takes a fresh identifier.\<close>

definition same_ids :: "world \<Rightarrow> world \<Rightarrow> bool" where
  "same_ids w w' \<longleftrightarrow> w_uuid w' = w_uuid w \<and> w_uuids w' = w_uuids w"

interpretation ids: effect_relation same_ids
  by unfold_locales (simp_all add: same_ids_def)

lemma ids_store:
  "obeys same_ids tick" "obeys same_ids (execute q)" "obeys same_ids (update_db f)"
  "obeys same_ids (redis_get key)" "obeys same_ids (redis_set key s ttl)" "obeys same_ids (redis_set_nx key s ttl)"
  "obeys same_ids (redis_eval_reserve key s s' ttl)"
  by (auto simp: obeys_def same_ids_def tick_def execute_def update_db_def redis_get_def redis_set_def
      redis_set_nx_def redis_eval_reserve_def put_value_def eff_simps split: option.splits prod.splits)

lemmas ids_intros = ids.obeys_intros ids_store

lemma ids_governor: "obeys same_ids (get_budget a c)" "obeys same_ids now_utc"
  unfolding get_budget_def now_utc_def by (intro ids_intros)+

lemma ids_evaluate: "obeys same_ids (evaluate i)"
  unfolding evaluate_def denial_def budget_results_def remaining_def case_prod_beta Let_def
  by (intro ids_intros ids_governor)

lemma ids_reserve: "obeys same_ids (reserve a c x)"
  unfolding reserve_def case_prod_beta Let_def by (intro ids_intros ids_governor)

lemma ids_commit: "obeys same_ids (commit a c x)"
  unfolding commit_def by (intro ids_intros ids_governor)

lemma ids_reset: "obeys same_ids (reset a c left)"
  unfolding reset_def by (intro ids_intros)

subsection \<open>What can still fail\<close>

text \<open>The two entries of the run: one when the intent is evaluated, one when the execution is completed.\<close>

definition evaluated_entry :: "service \<Rightarrow> execution_intent \<Rightarrow> policy_decision \<Rightarrow> string \<Rightarrow> audit_log list \<Rightarrow> datetime
    \<Rightarrow> string \<Rightarrow> audit_log" where
  "evaluated_entry S i d a rows = new_entry (sv_platform S) (audit_hmac_key (sv_settings S))
     ''execution_intent_evaluated'' a
     (JObj [(''intent'', intent_json i), (''decision'', decision_json d)]) (last_entry rows)"

definition completed_entry :: "service \<Rightarrow> execution_intent \<Rightarrow> string \<Rightarrow> audit_log list \<Rightarrow> datetime \<Rightarrow> string \<Rightarrow> audit_log" where
  "completed_entry S i a rows = new_entry (sv_platform S) (audit_hmac_key (sv_settings S))
     ''execution_completed'' a (JObj [(''intent'', intent_json i)]) (last_entry rows)"

lemma audit_clash_logs: "audit_logs d = audit_logs e \<Longrightarrow> audit_clash q d = audit_clash q e"
  by (simp add: audit_clash_def)

text \<open>With names of admissible length an append returns or violates a unique constraint of its table.\<close>

lemma append_or_clash:
  assumes "e \<noteq> []" "length e \<le> 128" "a \<noteq> []" "length a \<le> 128" "w_session_ok w"
  obtains (returns) w' where "append P key e a p w = (Inr (next_entry P key e a p w), w')"
      and "w_uuid w' = w_uuid w" and "w_uuids w' = Suc (w_uuids w)"
    | (clash) w' where "append P key e a p w = (Inl IntegrityError, w')"
      and "audit_clash (next_entry P key e a p w) (w_db w)"
proof (cases "audit_clash (next_entry P key e a p w) (w_db w)")
  case True
  then have "\<exists>w'. append P key e a p w = (Inl IntegrityError, w')"
    using assms by (simp add: append_def execute_def bindE_def now_utc_def tick_def uuid4_def add_and_flush_def
        ret_def Let_def next_entry_def not_less)
  then show thesis using clash True by blast
next
  case False
  then have "\<exists>w'. append P key e a p w = (Inr (next_entry P key e a p w), w') \<and> w_uuid w' = w_uuid w
      \<and> w_uuids w' = Suc (w_uuids w)"
    using assms by (simp add: append_def execute_def bindE_def now_utc_def tick_def uuid4_def add_and_flush_def
        ret_def Let_def next_entry_def not_less)
  then show thesis using returns by blast
qed

lemma commit_returns:
  assumes "find_row (is_budget a c) (budgets (w_db w)) = Inr (Some b)" and "bu_active b" and "0 < dval x"
    and "\<not> bu_limit_amount b < bu_consumed_amount b + x" and "w_session_ok w"
  shows "\<exists>t w'. commit a c x w = (Inr (consume b x t b), w') \<and> w_session_ok w'"
proof -
  have "\<not> x \<le> 0" using assms(3) by (simp add: dec_le_iff)
  then show ?thesis using assms
    by (auto simp: commit_def get_budget_def execute_def eff_simps now_utc_def tick_def update_db_def)
qed

lemma reset_returns:
  assumes "\<not> left < 0"
  shows "\<exists>w'. reset a c left w = (Inr (), w') \<and> w_session_ok w' = w_session_ok w"
  using assms by (simp add: reset_def redis_set_def eff_simps tick_def put_value_def)

lemma settlement_returns:
  assumes "find_row (is_budget (in_agent_id i) c) (budgets (w_db w)) = Inr (Some b)" and "bu_active b"
    and "budget_ok b" and "money x" and "0 < dval x" and "dval x \<le> dval (bu_limit_amount b - bu_consumed_amount b)"
    and "in_requested_amount i = Some x" and "in_currency i = Some c" and "actor_id \<noteq> []" and "length actor_id \<le> 128"
  obtains (settles) w' where "commit_execution S i actor_id w = (Inr (), w')"
    | (fails) w' t where "commit_execution S i actor_id w = (Inl IntegrityError, w')"
      and "audit_clash (completed_entry S i actor_id (audit_logs (w_db w)) t (w_uuid w (w_uuids w))) (w_db w)"
proof -
  let ?w = "w\<lparr>w_base := w_db w, w_session_ok := True\<rparr>"
  have left: "dval (bu_limit_amount b - bu_consumed_amount b) = dval (bu_limit_amount b) - dval (bu_consumed_amount b)"
    using assms(3) by (simp add: dval_diff budget_ok_def)
  have sum: "dval (bu_consumed_amount b + x) = dval (bu_consumed_amount b) + dval x"
    using assms(3,4) by (simp add: dval_add budget_ok_def)
  then have cap: "\<not> bu_limit_amount b < bu_consumed_amount b + x" using assms(6) left by (simp add: dec_less_iff)
  then obtain t w1 where com: "commit (in_agent_id i) c x ?w = (Inr (consume b x t b), w1)" and ok1: "w_session_ok w1"
    using commit_returns [of "in_agent_id i" c ?w b x] assms(1,2,5) by auto
  let ?b = "consume b x t b"
  have "budget_ok ?b" using consume_ok(1) [OF assms(3-5) cap] .
  then have "dval (bu_limit_amount ?b - bu_consumed_amount ?b) = dval (bu_limit_amount ?b) - dval (bu_consumed_amount ?b)"
    unfolding budget_ok_def by (intro dval_diff) simp_all
  then have "\<not> bu_limit_amount ?b - bu_consumed_amount ?b < 0"
    using \<open>budget_ok ?b\<close> unfolding budget_ok_def dec_less_iff by simp
  then obtain w2 where res: "reset (in_agent_id i) c (bu_limit_amount ?b - bu_consumed_amount ?b) w1 = (Inr (), w2)"
    and ok2: "w_session_ok w2"
    using reset_returns ok1 by metis
  have "audit_logs (w_db w1) = audit_logs (w_db w)" by (rule commit_Inr [OF com]) simp
  then have logs: "audit_logs (w_db w2) = audit_logs (w_db w)"
    using same_sessionD(1) [OF quiet_reset res] by simp
  have ids: "w_uuid w2 = w_uuid w" "w_uuids w2 = w_uuids w"
    using obeysD_pair [OF ids_commit com] obeysD_pair [OF ids_reset res] by (simp_all add: same_ids_def)
  let ?p = "JObj [(''intent'', intent_json i)]"
  let ?append = "audit_append S ''execution_completed'' actor_id ?p w2"
  have names: "''execution_completed'' \<noteq> []" "length ''execution_completed'' \<le> 128" by simp_all
  show thesis
  proof (rule append_or_clash [OF names assms(9,10) ok2, of "sv_platform S" "audit_hmac_key (sv_settings S)" ?p])
    fix w3
    assume "?append = (Inr (next_entry (sv_platform S) (audit_hmac_key (sv_settings S)) ''execution_completed'' actor_id ?p w2), w3)"
    then have "commit_execution S i actor_id w = (Inr (), w3)"
      using com res assms(7,8) by (simp add: commit_execution_def session_begin_def bindE_def ret_def)
    then show thesis by (rule settles)
  next
    fix w3
    assume "?append = (Inl IntegrityError, w3)"
      and "audit_clash (next_entry (sv_platform S) (audit_hmac_key (sv_settings S)) ''execution_completed'' actor_id ?p w2) (w_db w2)"
    moreover from this(1) have "commit_execution S i actor_id w = (Inl IntegrityError, w3\<lparr>w_db := w_base w3\<rparr>)"
      using com res assms(7,8) by (simp add: commit_execution_def session_begin_def bindE_def ret_def)
    ultimately show thesis
      using audit_clash_logs [OF logs] by (intro fails) (simp_all add: completed_entry_def next_entry_def logs ids)
  qed
qed

subsection \<open>The whole run\<close>

lemma allowed_evaluation:
  assumes "evaluate i (w\<lparr>w_base := w_db w, w_session_ok := True\<rparr>) = (Inr d, v0)" and "pd_outcome d = Allow"
    and i: "in_requested_amount i = Some x" "in_currency i = Some c"
    and "reservable T (in_agent_id i) c left v (w\<lparr>w_base := w_db w, w_session_ok := True\<rparr>)"
    and "whole_amount x n" and "0 < n" and "n \<le> v" and "n \<le> left" and "v < 10 ^ 14"
    and a: "a \<noteq> []" "length a \<le> 128"
  obtains (allows) w' t where "evaluate_or_wait S sched i a w = (Inr (Some d), w')"
      and "budgets (w_db w') = budgets (w_db w)"
      and "audit_logs (w_db w') = audit_logs (w_db w)
        @ [stored_entry (sv_platform S) (evaluated_entry S i d a (audit_logs (w_db w)) t (w_uuid w (w_uuids w)))]"
      and "w_uuid w' = w_uuid w" and "w_uuids w' = Suc (w_uuids w)"
    | (fails) w' t where "evaluate_or_wait S sched i a w = (Inl IntegrityError, w')"
      and "budgets (w_db w') = budgets (w_db w)"
      and "audit_clash (evaluated_entry S i d a (audit_logs (w_db w)) t (w_uuid w (w_uuids w))) (w_db w)"
proof -
  let ?w = "w\<lparr>w_base := w_db w, w_session_ok := True\<rparr>"
  let ?p = "JObj [(''intent'', intent_json i), (''decision'', decision_json d)]"
  let ?q = "next_entry (sv_platform S) (audit_hmac_key (sv_settings S)) ''execution_intent_evaluated'' a ?p v0"
  let ?append = "audit_append S ''execution_intent_evaluated'' a ?p v0"
  have ok: "reservable T (in_agent_id i) c left v v0"
    using obeysD_pair [OF reservable_evaluate [OF i] assms(1)] assms(5) by (simp add: keeps_reservable_def)
  then have session: "w_session_ok v0" by (simp add: reservable_def open_budget_def)
  have db: "w_db v0 = w_db w" "w_base v0 = w_db w"
    using same_sessionD [OF quiet_evaluate assms(1)] by simp_all
  have ids: "w_uuid v0 = w_uuid w" "w_uuids v0 = w_uuids w"
    using obeysD_pair [OF ids_evaluate assms(1)] by (simp_all add: same_ids_def)
  have q: "?q = evaluated_entry S i d a (audit_logs (w_db w)) (Datetime (w_clock v0 (w_ticks v0)) True) (w_uuid w (w_uuids w))"
    by (simp add: next_entry_def evaluated_entry_def db ids)
  have names: "''execution_intent_evaluated'' \<noteq> []" "length ''execution_intent_evaluated'' \<le> 128" by simp_all
  show thesis
  proof (rule append_or_clash [OF names a session, of "sv_platform S" "audit_hmac_key (sv_settings S)" ?p])
    fix v1
    assume app: "?append = (Inr ?q, v1)" and ids1: "w_uuid v1 = w_uuid v0" "w_uuids v1 = Suc (w_uuids v0)"
    have v1: "open_budget v1 (in_agent_id i) c left" "steady T v1" "balance v1 T (in_agent_id i) c left v"
      using reservable_append [OF app ok] by (simp_all add: reservable_def)
    have "0 \<le> v" using assms(7,8) by simp
    then obtain r v2 where res: "reserve (in_agent_id i) c x v1 = (Inr (True, r), v2)" and v2: "w_db v2 = w_db v1"
      by (rule reserve_whole [OF v1 _ assms(10,6,7)]) (use assms(8,9) in auto)
    have "evaluation_transaction S (sc_race sched) i a w = (Inr (Inl d), v2)"
      using assms(1,2) i app res by (simp add: evaluation_transaction_def session_begin_def bindE_def ret_def)
    then have "evaluate_or_wait S sched i a w = (Inr (Some d), v2)"
      by (simp add: evaluate_or_wait_def bindE_def ret_def)
    moreover have "budgets (w_db v2) = budgets (w_db w)" using append_world [OF app] v2 db by simp
    moreover have "audit_logs (w_db v2) = audit_logs (w_db w) @ [stored_entry (sv_platform S) ?q]"
      using append_Inr(3,4) [OF app] v2 db by simp
    moreover have "w_uuid v2 = w_uuid w" "w_uuids v2 = Suc (w_uuids w)"
      using obeysD_pair [OF ids_reserve res] ids1 ids by (simp_all add: same_ids_def)
    ultimately show thesis unfolding q by (rule allows)
  next
    fix v1
    assume app: "?append = (Inl IntegrityError, v1)" and clash: "audit_clash ?q (w_db v0)"
    have "budgets (w_db (v1\<lparr>w_db := w_base v1\<rparr>)) = budgets (w_db w)" using append_Inl [OF app] db by simp
    moreover have "evaluate_or_wait S sched i a w = (Inl IntegrityError, v1\<lparr>w_db := w_base v1\<rparr>)"
      using assms(1) app by (simp add: evaluate_or_wait_def evaluation_transaction_def session_begin_def bindE_def)
    ultimately show thesis using clash unfolding q db by (intro fails)
  qed
qed

lemma allowed_run:
  assumes "evaluate i (w\<lparr>w_base := w_db w, w_session_ok := True\<rparr>) = (Inr d, v0)" and "pd_outcome d = Allow"
    and "in_requested_amount i = Some x" and "in_currency i = Some c"
    and "budgets_ok (w_db w)" and "open_budget (w\<lparr>w_session_ok := True\<rparr>) (in_agent_id i) c left"
    and "steady T w" and "balance w T (in_agent_id i) c left v" and "v < 10 ^ 14"
    and "whole_amount x n" and "0 < n" and "n \<le> v" and "n \<le> left"
    and "actor_id \<noteq> []" and "length actor_id \<le> 128"
    and "leaves_budgets tool" and "\<forall>u. fst (tool u) = Inr y"
  obtains (settles) w' where "execute_tool S sched i actor_id tool w = (Inr (Some y), w')"
      and "charged i x c (w_db w) (w_db w')"
    | (evaluation_fails) w' t where "execute_tool S sched i actor_id tool w = (Inl IntegrityError, w')"
      and "budgets (w_db w') = budgets (w_db w)"
      and "audit_clash (evaluated_entry S i d actor_id (audit_logs (w_db w)) t (w_uuid w (w_uuids w))) (w_db w)"
    | (settlement_fails) w' t w1 u t' where "execute_tool S sched i actor_id tool w = (Inl IntegrityError, w')"
      and "budgets (w_db w') = budgets (w_db w)"
      and "audit_logs (w_db w1) = audit_logs (w_db w)
        @ [stored_entry (sv_platform S) (evaluated_entry S i d actor_id (audit_logs (w_db w)) t (w_uuid w (w_uuids w)))]"
      and "w_uuid w1 = w_uuid w" and "w_uuids w1 = Suc (w_uuids w)" and "tool w1 = (Inr y, u)"
      and "audit_clash (completed_entry S i actor_id (audit_logs (w_db u)) t' (w_uuid u (w_uuids u))) (w_db u)"
proof -
  let ?w = "w\<lparr>w_base := w_db w, w_session_ok := True\<rparr>"
  from assms(6) obtain b where b: "find_row (is_budget (in_agent_id i) c) (budgets (w_db w)) = Inr (Some b)" "bu_active b"
    and left: "dval (bu_limit_amount b - bu_consumed_amount b) = of_int left"
    by (auto simp: open_budget_def whole_amount_def)
  have bok: "budget_ok b" using find_row_Some [OF b(1)] assms(5) by (simp add: budgets_ok_def)
  have x: "dval x = of_int n" using assms(10) by (simp add: whole_amount_def)
  have "rat_of_int n * 10000 \<in> \<int>" by (intro Ints_mult) simp_all
  then have money: "money x" using assms(10,11) by (simp add: money_def x whole_amount_def)
  have "reservable T (in_agent_id i) c left v ?w"
    using assms(6-8) by (simp add: reservable_def open_budget_def steady_def balance_def)
  then show thesis
  proof (cases rule: allowed_evaluation [OF assms(1-4) _ assms(10-13,9,14,15), where S = S and sched = sched,
        case_names reservable allows fails])
    case (allows w1 t)
    obtain u where tool: "tool w1 = (Inr y, u)" using assms(17) fst_run by metis
    have "budgets (w_db u) = budgets (w_db w)" using assms(16) tool allows(2) by (metis leaves_budgets_def snd_conv)
    then have row: "find_row (is_budget (in_agent_id i) c) (budgets (w_db u)) = Inr (Some b)" using b by simp
    have "0 < dval x" "dval x \<le> dval (bu_limit_amount b - bu_consumed_amount b)" using assms(11,13) left x by simp_all
    note settlement = settlement_returns [OF row b(2) bok money this assms(3,4,14,15), of S]
    have run: "execute_tool S sched i actor_id tool w = run_tool S i actor_id tool w1"
      using allows(1) assms(2) by (simp add: execute_tool_def bindE_def)
    have settle: "run_tool S i actor_id tool w1 = bindE (commit_execution S i actor_id) (\<lambda>_. ret (Some y)) u"
      using tool by (simp add: run_tool_def)
    show thesis
    proof (rule settlement)
      fix w' assume "commit_execution S i actor_id u = (Inr (), w')"
      then have "run_tool S i actor_id tool w1 = (Inr (Some y), w')" using settle by (simp add: bindE_def ret_def)
      then show thesis using run_tool_charges [OF assms(16,3,4)] run allows(2)
        by (intro settles [of w']) (fastforce simp: charged_def)+
    next
      fix w' t'
      assume "commit_execution S i actor_id u = (Inl IntegrityError, w')"
        and clash: "audit_clash (completed_entry S i actor_id (audit_logs (w_db u)) t' (w_uuid u (w_uuids u))) (w_db u)"
      then have "run_tool S i actor_id tool w1 = (Inl IntegrityError, w')" using settle by (simp add: bindE_def)
      then have "execute_tool S sched i actor_id tool w = (Inl IntegrityError, w')"
        and "budgets (w_db w') = budgets (w_db w)"
        using run_tool_charges [OF assms(16,3,4)] run allows(2) by fastforce+
      then show thesis by (rule settlement_fails) (rule allows(3-5) tool clash)+
    qed
  next
    case (fails w1 t)
    then show thesis by (intro evaluation_fails [of w1 t]) (simp_all add: execute_tool_def bindE_def)
  qed
qed

subsection \<open>A run on the sample service\<close>

lemma still_allowed: "fst (evaluate (sample_intent (Dec 20 0)) still_world) = Inr sample_allow"
  by code_simp

lemma still_session: "still_world\<lparr>w_base := w_db still_world, w_session_ok := True\<rparr> = still_world"
  "still_world\<lparr>w_session_ok := True\<rparr> = still_world"
  by (simp_all add: still_world_def sample_world_def)

lemma sample_budget_table: "budgets_ok sample_database"
  by (simp add: budgets_ok_def sample_database_def sample_budget_def budget_ok_def money_def dval_def pair_of_def sval_def)

lemma sample_intent_sel:
  "in_requested_amount (sample_intent x) = Some x" "in_currency (sample_intent x) = Some ''USD''"
  "in_agent_id (sample_intent x) = ''agent-1''"
  by (simp_all add: sample_intent_def)

lemma still_db: "w_db still_world = sample_database" "audit_logs (w_db still_world) = []"
  by (simp_all add: still_world_def)

lemma sample_payloads_ok:
  "json_ok (JObj [(''intent'', intent_json (sample_intent x)), (''decision'', decision_json sample_allow)])"
  "json_ok (JObj [(''intent'', intent_json (sample_intent x))])"
  by (simp_all add: intent_json_def decision_json_def sample_intent_def sample_allow_def opt_json_def dec_json_def)

text \<open>The second entry takes nothing that the first one has.\<close>

lemma sample_entries_differ:
  assumes "audit_logs d = [stored_entry sample_platform
      (evaluated_entry sample_service (sample_intent x) sample_allow a [] t i)]" and "i \<noteq> j"
  shows "\<not> audit_clash (completed_entry sample_service (sample_intent x) a (audit_logs d) t' j) d"
proof -
  let ?q = "evaluated_entry sample_service (sample_intent x) sample_allow a [] t i"
  let ?r = "completed_entry sample_service (sample_intent x) a (audit_logs d) t' j"
  have last: "last_entry (audit_logs d) = Some (stored_entry sample_platform ?q)"
    using assms(1) by (simp add: last_entry_def)
  have seq: "au_sequence_number ?q = 1" "au_sequence_number ?r = 2"
    unfolding completed_entry_def last by (simp_all add: evaluated_entry_def last_entry_def)
  have "au_entry_hash ?q \<noteq> au_entry_hash ?r"
  proof
    assume "au_entry_hash ?q = au_entry_hash ?r"
    then have "entry_material ?q = entry_material ?r"
      unfolding evaluated_entry_def completed_entry_def new_entry_hash
      by (simp add: sample_service_def sample_platform_def) (rule hex_text_inj)
    then have "same_entry ?q ?r"
      by (rule entry_material_eq [rotated 2])
        (simp_all only: evaluated_entry_def completed_entry_def new_entry_sel sample_payloads_ok)
    then show False using seq by (simp add: same_entry_def)
  qed
  then show ?thesis
    using assms seq by (simp add: audit_clash_def evaluated_entry_def completed_entry_def)
qed

lemma sample_execution:
  obtains w' where "execute_tool sample_service sample_schedule (sample_intent (Dec 20 0)) ''alice''
    (\<lambda>w. (Inr (7 :: int), w)) still_world = (Inr (Some 7), w')"
proof -
  obtain v0 where run: "evaluate (sample_intent (Dec 20 0))
      (still_world\<lparr>w_base := w_db still_world, w_session_ok := True\<rparr>) = (Inr sample_allow, v0)"
    unfolding still_session using fst_run [OF still_allowed] by blast
  have row: "open_budget (still_world\<lparr>w_session_ok := True\<rparr>) (in_agent_id (sample_intent (Dec 20 0))) ''USD'' 100"
    unfolding still_session sample_intent_sel by (rule still_budget(1))
  have allow: "pd_outcome sample_allow = Allow" by (simp add: sample_allow_def)
  have bal: "balance still_world 1700000000000000 (in_agent_id (sample_intent (Dec 20 0))) ''USD'' 100 100"
    unfolding sample_intent_sel by (rule still_budget(3))
  have ids: "w_uuid still_world 0 \<noteq> w_uuid still_world (Suc 0)" "w_uuids still_world = 0"
    by (simp_all add: still_world_def sample_world_def nat_str.simps digit_char_def)
  have table: "budgets_ok (w_db still_world)" using sample_budget_table by (simp add: still_db)
  have S: "sv_platform sample_service = sample_platform" by (simp add: sample_service_def)
  show thesis
  proof (rule allowed_run [OF run allow sample_intent_sel(1,2) table row still_budget(2) bal, of 20 "''alice''"
        "\<lambda>w. (Inr (7 :: int), w)" 7 sample_service sample_schedule])
    fix w'
    assume "execute_tool sample_service sample_schedule (sample_intent (Dec 20 0)) ''alice''
      (\<lambda>w. (Inr (7 :: int), w)) still_world = (Inr (Some 7), w')"
    then show thesis by (rule that)
  next
    fix w' t
    assume "audit_clash (evaluated_entry sample_service (sample_intent (Dec 20 0)) sample_allow ''alice''
      (audit_logs (w_db still_world)) t (w_uuid still_world (w_uuids still_world))) (w_db still_world)"
    then show thesis by (simp add: audit_clash_def still_db)
  next
    fix w1 u :: world and t t'
    assume "audit_logs (w_db w1) = audit_logs (w_db still_world) @ [stored_entry (sv_platform sample_service)
        (evaluated_entry sample_service (sample_intent (Dec 20 0)) sample_allow ''alice'' (audit_logs (w_db still_world)) t
          (w_uuid still_world (w_uuids still_world)))]"
      and "w_uuid w1 = w_uuid still_world" "w_uuids w1 = Suc (w_uuids still_world)" "(Inr (7 :: int), w1) = (Inr 7, u)"
      and "audit_clash (completed_entry sample_service (sample_intent (Dec 20 0)) ''alice'' (audit_logs (w_db u)) t'
        (w_uuid u (w_uuids u))) (w_db u)"
    then show thesis
      using sample_entries_differ [of "w_db w1" "Dec 20 0" "''alice''" t "w_uuid still_world 0" "w_uuid still_world (Suc 0)" t'] ids
      by (simp add: still_db S)
  qed (use whole_int [of 20] in \<open>simp_all add: leaves_budgets_def\<close>)
qed

subsection \<open>Property\<close>



text \<open>The run of the sample service returns, and has charged the budget.\<close>

lemma execution_charges_exactly_witness:
  "\<exists>w'. execute_tool sample_service sample_schedule (sample_intent (Dec 20 0)) ''alice'' (\<lambda>w. (Inr (7 :: int), w)) still_world
      = (Inr (Some 7), w') \<and> charged (sample_intent (Dec 20 0)) (Dec 20 0) ''USD'' sample_database (w_db w')"
proof -
  obtain w' where run: "execute_tool sample_service sample_schedule (sample_intent (Dec 20 0)) ''alice''
    (\<lambda>w. (Inr (7 :: int), w)) still_world = (Inr (Some 7), w')"
    by (rule sample_execution)
  have "others_along same_budgets sample_schedule"
    by (simp add: others_along_def same_budgets_def sample_schedule_def idle_poll_def)
  from execution_charges_exactly [OF this _ sample_intent_sel(1,2) run] run show ?thesis
    by (simp add: leaves_budgets_def still_db)
qed

subsection \<open>Waiting on an approval that was given\<close>

lemma approved_evaluation:
  assumes run: "evaluate i (w\<lparr>w_base := w_db w, w_session_ok := True\<rparr>) = (Inr d, v0)"
    and "pd_outcome d = RequireApproval"
    and "find_by_key (in_idempotency_key i) (w_db w) = Inr (Some t)" and "hi_id t \<noteq> []"
    and a: "a \<noteq> []" "length a \<le> 128"
  obtains (waits) v where "w_db v = (w_db w)\<lparr>audit_logs := audit_logs (w_db v)\<rparr>"
      and "evaluate_or_wait S sched i a w
        = await_resolution S i (hi_id t) a (sc_start sched) (sc_polls sched) v"
    | (fails) v n where "evaluate_or_wait S sched i a w = (Inl IntegrityError, v)"
      and "audit_clash (evaluated_entry S i d a (audit_logs (w_db w)) n (w_uuid w (w_uuids w))) (w_db w)"
proof -
  let ?w = "w\<lparr>w_base := w_db w, w_session_ok := True\<rparr>"
  let ?p = "JObj [(''intent'', intent_json i), (''decision'', decision_json d)]"
  let ?q = "next_entry (sv_platform S) (audit_hmac_key (sv_settings S)) ''execution_intent_evaluated'' a ?p v0"
  let ?append = "audit_append S ''execution_intent_evaluated'' a ?p v0"
  have v0: "w_db v0 = w_db w" "w_session_ok v0"
    using same_sessionD [OF quiet_evaluate run] by simp_all
  have ids: "w_uuid v0 = w_uuid w" "w_uuids v0 = w_uuids w"
    using obeysD_pair [OF ids_evaluate run] by (simp_all add: same_ids_def)
  have q: "?q = evaluated_entry S i d a (audit_logs (w_db w)) (Datetime (w_clock v0 (w_ticks v0)) True) (w_uuid w (w_uuids w))"
    by (simp add: next_entry_def evaluated_entry_def v0 ids)
  have names: "''execution_intent_evaluated'' \<noteq> []" "length ''execution_intent_evaluated'' \<le> 128" by simp_all
  show thesis
  proof (rule append_or_clash [OF names a v0(2), of "sv_platform S" "audit_hmac_key (sv_settings S)" ?p])
    fix v1
    assume app: "?append = (Inr ?q, v1)"
    have db: "w_db v1 = (w_db w)\<lparr>audit_logs := audit_logs (w_db v1)\<rparr>"
      using append_Inr(3) [OF app] v0 by simp
    have "find_by_key (in_idempotency_key i) (w_db v1) = Inr (Some t)"
      using assms(3) by (subst db) (simp add: find_by_key_def)
    from create_or_get_existing [OF append_Inr(6) [OF app] this]
    have "evaluation_transaction S (sc_race sched) i a w = (Inr (Inr (d\<lparr>pd_hitl_transaction_id := Some (hi_id t)\<rparr>)), v1)"
      using run app assms(2) by (simp add: evaluation_transaction_def session_begin_def bindE_def ret_def)
    moreover obtain v2 where pub: "publish_hitl_request (hi_id t) v1 = (Inr (), v2)"
      by (simp add: publish_hitl_request_def redis_publish_def bindE_def now_utc_def tick_def ret_def modify_s_def)
    ultimately have "evaluate_or_wait S sched i a w
        = await_resolution S i (hi_id t) a (sc_start sched) (sc_polls sched) v2"
      using assms(2,4) by (simp add: evaluate_or_wait_def bindE_def)
    moreover have "w_db v2 = w_db v1"
      using pub by (auto simp: publish_hitl_request_def redis_publish_def bindE_def now_utc_def tick_def ret_def modify_s_def)
    ultimately show thesis using db by (intro waits [of v2]) simp_all
  next
    fix v1
    assume app: "?append = (Inl IntegrityError, v1)" and clash: "audit_clash ?q (w_db v0)"
    have "evaluate_or_wait S sched i a w = (Inl IntegrityError, v1\<lparr>w_db := w_base v1\<rparr>)"
      using run app by (simp add: evaluate_or_wait_def evaluation_transaction_def session_begin_def bindE_def)
    then show thesis using clash unfolding q v0(1) by (rule fails)
  qed
qed

text \<open>
  C35: An approval is bound to its idempotency key alone: when the engine asks for an approval of an
  intent that names no amount, and an approved request with its key is in the table, the intent
  is allowed on that request at the first turn of the wait, whatever agent, action or payload
  the request was approved for; no human sees it.  The only other way out is that the entry of
  the evaluation clashes in the audit table.
\<close>

theorem approval_bound_to_key_only:
  assumes "evaluate i (w\<lparr>w_base := w_db w, w_session_ok := True\<rparr>) = (Inr d, v0)"
    and "pd_outcome d = RequireApproval" and "in_requested_amount i = None"
    and "find_by_key (in_idempotency_key i) (w_db w) = Inr (Some t)"
    and "find_by_id (hi_id t) (w_db w) = Inr (Some t)" and "hi_status t = APPROVED" and "hi_id t \<noteq> []"
    and "a \<noteq> []" and "length a \<le> 128"
    and "sc_polls sched = p # ps" and "pl_others p = id"
    and "pl_time p < sc_start sched + approval_timeout_seconds (sv_settings S) * 1000000"
  shows "(\<exists>d' w'. evaluate_or_wait S sched i a w = (Inr (Some d'), w') \<and> pd_outcome d' = Allow)
    \<or> (\<exists>n w'. evaluate_or_wait S sched i a w = (Inl IntegrityError, w')
        \<and> audit_clash (evaluated_entry S i d a (audit_logs (w_db w)) n (w_uuid w (w_uuids w))) (w_db w))"
proof (rule approved_evaluation [OF assms(1,2,4,7-9), of S sched])
  fix v
  assume db: "w_db v = (w_db w)\<lparr>audit_logs := audit_logs (w_db v)\<rparr>"
    and run: "evaluate_or_wait S sched i a w = await_resolution S i (hi_id t) a (sc_start sched) (sc_polls sched) v"
  have "find_by_id (hi_id t) (w_db v) = Inr (Some t)" using assms(5) by (subst db) (simp add: find_by_id_def)
  from await_loop_approved [OF this assms(6,3,11,12)] show ?thesis
    unfolding run await_resolution_def assms(10) by blast
qed blast

text \<open>
  A policy that asks for an approval of everything, and the approval of a payment of 60 to bob: it
  admits a payment to mallory.
\<close>

definition asking_policy :: policy where
  "asking_policy = sample_policy\<lparr>po_definition :=
     JObj [(''rules'', JArr [JObj [(''effect'', JStr ''require_approval'')]])]\<rparr>"

definition asking_world :: world where
  "asking_world = (hitl_world APPROVED)\<lparr>w_db := (w_db (hitl_world APPROVED))\<lparr>policies := [asking_policy]\<rparr>\<rparr>"

definition other_intent :: execution_intent where
  "other_intent = sample_plain\<lparr>in_payload := [(''to'', JStr ''mallory'')]\<rparr>"

lemma map_sum_Inr: "map_sum f g x = Inr z \<Longrightarrow> \<exists>y. g y = z \<and> x = Inr y"
  by (cases x) simp_all

lemma asking_run:
  "map_sum id pd_outcome (fst (evaluate other_intent (asking_world\<lparr>w_base := w_db asking_world, w_session_ok := True\<rparr>)))
     = Inr RequireApproval"
  by code_simp

lemma approval_bound_to_key_only_witness:
  "hi_intent_payload (sample_hitl APPROVED) = JObj [(''to'', JStr ''bob'')]
   \<and> in_payload other_intent = [(''to'', JStr ''mallory'')]
   \<and> (\<exists>d w'. evaluate_or_wait sample_service sample_schedule other_intent ''alice'' asking_world = (Inr (Some d), w')
        \<and> pd_outcome d = Allow)"
proof -
  let ?e = "evaluate other_intent (asking_world\<lparr>w_base := w_db asking_world, w_session_ok := True\<rparr>)"
  obtain d where d: "pd_outcome d = RequireApproval" and "fst ?e = Inr d"
    using map_sum_Inr [OF asking_run] by (elim exE conjE) (rule that)
  from fst_run [OF this(2)] obtain v0 where run: "?e = (Inr d, v0)" ..
  have i: "in_requested_amount other_intent = None" "in_idempotency_key other_intent = ''key-000000000001''"
    by (simp_all add: other_intent_def sample_plain_def sample_intent_def)
  have find: "find_by_key (in_idempotency_key other_intent) (w_db asking_world) = Inr (Some (sample_hitl APPROVED))"
    "find_by_id (hi_id (sample_hitl APPROVED)) (w_db asking_world) = Inr (Some (sample_hitl APPROVED))"
    using hitl_world_find(1,2) [of APPROVED] by (simp_all add: asking_world_def i find_by_key_def find_by_id_def)
  have logs: "audit_logs (w_db asking_world) = []" by (simp add: asking_world_def hitl_world_def)
  have "0 < approval_timeout_seconds sample_settings" by (simp add: sample_settings_def)
  from approval_bound_to_key_only [OF run d i(1) find, of "''alice''" sample_schedule "idle_poll 0" "[]" sample_service] this
  have "\<exists>d w'. evaluate_or_wait sample_service sample_schedule other_intent ''alice'' asking_world = (Inr (Some d), w')
      \<and> pd_outcome d = Allow"
    by (auto simp: sample_schedule_def idle_poll_def sample_service_def audit_clash_def logs)
  then show ?thesis
    by (simp add: other_intent_def sample_plain_def sample_hitl_def new_hitl_def sample_intent_def)
qed

end
