(* ===== verification/Failures.thy ===== *)
theory Failures
  imports Router
begin

text \<open>
  Which exceptions an operation can raise.  \<open>fails_with Q m\<close> says that every exception out of
  \<open>m\<close> satisfies \<open>Q\<close>; the combinators keep it, so each operation is one application of the
  rules.  The instance of interest bounds the HTTP errors: the inner components raise none, and
  an endpoint raises only those it is meant to.
\<close>

subsection \<open>Exceptions of an effect\<close>

definition fails_with :: "(py_exn \<Rightarrow> bool) \<Rightarrow> ('s, 'a) eff \<Rightarrow> bool" where
  "fails_with Q m \<longleftrightarrow> (\<forall>s e s'. m s = (Inl e, s') \<longrightarrow> Q e)"

definition error_in :: "(py_exn \<Rightarrow> bool) \<Rightarrow> 'a result \<Rightarrow> bool" where
  "error_in Q r \<longleftrightarrow> (\<forall>e. r = Inl e \<longrightarrow> Q e)"

text \<open>An HTTP error has one of the given status codes; any other exception is admitted.\<close>

fun http_in :: "int set \<Rightarrow> py_exn \<Rightarrow> bool" where
  "http_in C (HTTPException c detail) \<longleftrightarrow> c \<in> C"
| "http_in C _ \<longleftrightarrow> True"

lemma fails_withD: "fails_with Q m \<Longrightarrow> fst (m s) = Inl e \<Longrightarrow> Q e"
  unfolding fails_with_def by (metis prod.collapse)

lemma fails_with_mono: "fails_with (http_in C) m \<Longrightarrow> C \<subseteq> D \<Longrightarrow> fails_with (http_in D) m"
proof -
  have "http_in C e \<Longrightarrow> C \<subseteq> D \<Longrightarrow> http_in D e" for e by (cases e) auto
  then show "fails_with (http_in C) m \<Longrightarrow> C \<subseteq> D \<Longrightarrow> fails_with (http_in D) m"
    unfolding fails_with_def by blast
qed

named_theorems error_intros \<open>exceptions of a pure result\<close>

lemma error_in_simps [error_intros]:
  "error_in Q (Inr x)"
  "Q e \<Longrightarrow> error_in Q (Inl e)"
  by (simp_all add: error_in_def)

lemma error_in_bindR [error_intros]:
  "error_in Q m \<Longrightarrow> (\<And>x. error_in Q (f x)) \<Longrightarrow> error_in Q (bindR m f)"
  by (cases m) (simp_all add: error_in_def)

lemma error_in_if [error_intros]:
  "error_in Q m \<Longrightarrow> error_in Q n \<Longrightarrow> error_in Q (if b then m else n)"
  by simp

lemma error_in_all_checks: "(\<And>c. c \<in> set cs \<Longrightarrow> error_in Q c) \<Longrightarrow> error_in Q (all_checks cs)"
proof (induction cs)
  case Nil
  show ?case by (simp add: error_in_def)
next
  case (Cons c cs)
  show ?case unfolding all_checks.simps by (intro error_intros Cons) auto
qed

lemma error_in_find_row [error_intros]: "Q MultipleResultsFound \<Longrightarrow> error_in Q (find_row p rows)"
  by (auto simp: error_in_def find_row_def scalar_one_or_none_def split: list.splits)

named_theorems fails_intros \<open>exceptions of an effect\<close>

lemma fails_base [fails_intros]:
  "fails_with Q (ret x)"
  "Q e \<Longrightarrow> fails_with Q (raise e)"
  "fails_with Q (get_s f)"
  "fails_with Q (modify_s g)"
  "error_in Q r \<Longrightarrow> fails_with Q (lift_result r)"
  "fails_with Q m \<Longrightarrow> fails_with Q n \<Longrightarrow> fails_with Q (if b then m else n)"
  "fails_with Q m \<Longrightarrow> (\<And>x. fails_with Q (h x)) \<Longrightarrow> fails_with Q (case opt of None \<Rightarrow> m | Some x \<Rightarrow> h x)"
  by (simp_all add: fails_with_def error_in_def ret_def raise_def get_s_def modify_s_def lift_result_def
      split: option.split)

lemma fails_bind [fails_intros]:
  "fails_with Q m \<Longrightarrow> (\<And>x. fails_with Q (f x)) \<Longrightarrow> fails_with Q (bindE m f)"
  unfolding fails_with_def by (auto simp: bindE_def split: prod.splits sum.splits)

lemma fails_catch:
  "fails_with P m \<Longrightarrow> (\<And>e. P e \<Longrightarrow> fails_with Q (h e)) \<Longrightarrow> fails_with Q (catchE m h)"
  unfolding fails_with_def by (clarsimp simp: catchE_def split: prod.splits sum.splits) blast

lemma fails_session [fails_intros]:
  "fails_with Q m \<Longrightarrow> fails_with Q (session_begin m)"
  "fails_with Q m \<Longrightarrow> fails_with Q (with_session m)"
  unfolding fails_with_def
  by (auto simp: session_begin_def with_session_def split: prod.splits sum.splits)

text \<open>The store.\<close>

lemma fails_store [fails_intros]:
  "fails_with Q tick"
  "fails_with Q uuid4"
  "fails_with Q now_utc"
  "Q PendingRollbackError \<Longrightarrow> (\<And>d. error_in Q (q d)) \<Longrightarrow> fails_with Q (execute q)"
  "fails_with Q (update_db g)"
  "Q PendingRollbackError \<Longrightarrow> Q IntegrityError \<Longrightarrow> fails_with Q (add_and_flush clash ins)"
  "Q DataError \<Longrightarrow> fails_with Q (integer_column P n)"
  "fails_with Q (others_commit g)"
  "fails_with Q (others_run k)"
  "fails_with Q (redis_publish c s)"
  by (auto simp: fails_with_def error_in_def tick_def uuid4_def now_utc_def execute_def update_db_def
      add_and_flush_def integer_column_def others_commit_def others_run_def redis_publish_def modify_s_def bindE_def ret_def
      split: if_splits)

lemma fails_redis [fails_intros]:
  "fails_with Q (redis_get k)"
  "fails_with Q (redis_set k s t)"
  "fails_with Q (redis_set_nx k s t)"
  "Q RedisResponseError \<Longrightarrow> fails_with Q (redis_eval_reserve k x y t)"
  by (auto simp: fails_with_def redis_get_def redis_set_def redis_set_nx_def redis_eval_reserve_def
      tick_def get_s_def modify_s_def bindE_def split: option.splits prod.splits if_splits)

subsection \<open>The components raise no HTTP errors\<close>

lemma fails_get_budget [fails_intros]: "fails_with (http_in C) (get_budget a c)"
  unfolding get_budget_def by (intro fails_intros error_intros) simp_all

lemma error_decimal [error_intros]: "error_in (http_in C) (decimal s)"
  by (auto simp: error_in_def decimal_def split: option.splits)

lemma error_pydec_less [error_intros]: "error_in (http_in C) (pydec_less x y)"
  by (auto simp: error_in_def elim: pydec_less.elims)

lemma fails_remaining [fails_intros]: "fails_with (http_in C) (remaining a c)"
  unfolding remaining_def Let_def by (intro fails_intros error_intros)

lemma fails_reserve [fails_intros]: "fails_with (http_in C) (reserve a c x)"
  unfolding reserve_def Let_def case_prod_beta by (intro fails_intros error_intros) simp_all

lemma fails_commit [fails_intros]: "fails_with (http_in C) (commit a c x)"
  unfolding commit_def by (intro fails_intros error_intros) simp_all

lemma fails_release [fails_intros]: "fails_with (http_in C) (release a c x)"
  unfolding release_def by (intro fails_intros error_intros)

lemma fails_reset [fails_intros]: "fails_with (http_in C) (reset a c x)"
  unfolding reset_def by (intro fails_intros error_intros) simp_all

lemma fails_append [fails_intros]: "fails_with (http_in C) (append P key e a p)"
  unfolding append_def Let_def by (intro fails_intros error_intros) simp_all

lemma error_decimal_condition [error_intros]: "error_in (http_in C) (decimal_condition v)"
  unfolding decimal_condition_def
  by (cases "dec_of_str (py_str v)") (auto intro!: error_intros)

lemma error_cond: "(\<And>v. error_in Q (t v)) \<Longrightarrow> error_in Q (cond d k t)"
  by (simp add: cond_def error_in_def split: option.split)

lemma error_matches [error_intros]: "error_in (http_in C) (matches v a i)"
proof (cases v)
  case (JObj d)
  show ?thesis unfolding matches_def JObj json.case Let_def
    by (intro error_intros error_in_all_checks)
      (auto intro!: error_cond error_intros)
qed (simp_all add: matches_def error_in_def)

lemma error_effect_outcome [error_intros]: "error_in (http_in C) (effect_outcome v)"
  by (simp add: error_in_def effect_outcome_def split: json.split)

lemma error_apply_rule [error_intros]: "error_in (http_in C) (apply_rule p k d)"
  unfolding apply_rule_def
  by (intro error_intros) (auto intro: error_intros split: option.split)

lemma error_evaluate_rule [error_intros]: "error_in (http_in C) (evaluate_rule p a i k r)"
  unfolding evaluate_rule_def
  by (cases r) (auto intro!: error_intros)

lemma error_evaluate_rules [error_intros]: "error_in (http_in C) (evaluate_rules p a i k rs)"
  by (induction rs arbitrary: k) (simp_all add: error_intros)

lemma error_evaluate_policies [error_intros]: "error_in (http_in C) (evaluate_policies ps a i)"
proof (induction ps)
  case (Cons p ps)
  have "error_in (http_in C) (evaluate_policy p a i)"
    unfolding evaluate_policy_def by (auto intro: error_intros split: json.split)
  then show ?case using Cons by (simp add: error_intros)
qed (simp add: error_intros)

lemma error_new_policy_decision [error_intros]: "error_in (http_in C) (new_policy_decision o' r rs ps b t)"
  by (auto simp: error_in_def new_policy_decision_def int_field_def split: if_splits)

lemma error_final_decision [error_intros]: "error_in (http_in C) (final_decision tier rs left)"
  unfolding final_decision_def
  by (intro error_intros) (auto simp: error_in_def finite_budget_def split: option.splits pydec.splits)

lemma fails_evaluate [fails_intros]: "fails_with (http_in C) (evaluate i)"
  unfolding evaluate_def denial_def budget_results_def case_prod_beta
  by (intro fails_intros error_intros) simp_all

lemma fails_create_or_get_hitl [fails_intros]: "fails_with (http_in C) (create_or_get_hitl S race i d)"
  unfolding create_or_get_hitl_def Let_def find_by_key_def
  by (intro fails_intros error_intros fails_catch [where P = "http_in C"]) simp_all

lemma fails_evaluation_transaction [fails_intros]:
  "fails_with (http_in C) (evaluation_transaction S race i a)"
proof -
  have "fails_with (http_in C) (case pd_outcome d of Deny \<Rightarrow> ret (Inl d)
       | Allow \<Rightarrow> (case (in_requested_amount i, in_currency i) of
              (Some amount, Some currency) \<Rightarrow>
                bindE (reserve (in_agent_id i) currency amount) (\<lambda>(reserved, left).
                  ret (Inl (if reserved then d else reservation_failed d left)))
            | _ \<Rightarrow> ret (Inl d))
       | RequireApproval \<Rightarrow>
           bindE (create_or_get_hitl S race i d) (\<lambda>t.
             ret (Inr (d\<lparr>pd_hitl_transaction_id := Some (hi_id t)\<rparr>))))" for d
    by (cases "pd_outcome d"; cases "in_requested_amount i"; cases "in_currency i")
      (auto simp: case_prod_beta intro!: fails_intros)
  then show ?thesis unfolding evaluation_transaction_def by (intro fails_intros)
qed

lemma fails_resolution_decision [fails_intros]: "fails_with (http_in C) (resolution_decision i t st)"
  unfolding resolution_decision_def approval_granted_def
  by (cases "in_requested_amount i"; cases "in_currency i")
    (auto simp: case_prod_beta intro!: fails_intros error_intros)

lemma fails_get_transaction_status [fails_intros]: "fails_with (http_in C) (get_transaction_status t)"
  unfolding get_transaction_status_def find_by_id_def by (intro fails_intros error_intros) simp_all

lemma fails_expire_transaction [fails_intros]: "fails_with (http_in C) (expire_transaction S t a)"
  unfolding expire_transaction_def find_by_id_def by (intro fails_intros error_intros) simp_all

lemma fails_await_loop [fails_intros]: "fails_with (http_in C) (await_loop S i t a deadline ps)"
proof (induction ps)
  case (Cons p ps)
  then show ?case unfolding await_loop.simps by (intro fails_intros) simp_all
qed (simp add: fails_intros)

lemma fails_evaluate_or_wait [fails_intros]: "fails_with (http_in C) (evaluate_or_wait S sched i a)"
proof -
  have "fails_with (http_in C) (publish_hitl_request t)" for t
    unfolding publish_hitl_request_def by (intro fails_intros)
  then show ?thesis unfolding evaluate_or_wait_def await_resolution_def
    by (intro fails_intros) (auto intro!: fails_intros split: sum.split option.split)
qed

subsection \<open>The endpoints\<close>

lemma fails_require_principal:
  "401 \<in> C \<Longrightarrow> fails_with (http_in C) (require_principal J s cr)"
  unfolding require_principal_def
  by (auto intro!: fails_intros split: option.split)

lemma fails_require_role:
  "401 \<in> C \<Longrightarrow> 403 \<in> C \<Longrightarrow> fails_with (http_in C) (require_role J s roles cr)"
  unfolding require_role_def by (intro fails_intros fails_require_principal) simp_all

lemma fails_conflict:
  "409 \<in> C \<Longrightarrow> fails_with (http_in C) m \<Longrightarrow> fails_with (http_in C) (conflict_409 detail m)"
  unfolding conflict_409_def by (rule fails_catch [where P = "http_in C"]) (auto intro!: fails_intros)

lemma fails_register_agent: "fails_with (http_in {401, 403, 409}) (register_agent J S cr payload)"
  unfolding register_agent_def Let_def by (intro fails_intros fails_require_role fails_conflict) simp_all

lemma fails_upsert_budget: "fails_with (http_in {401, 403, 404, 422}) (upsert_budget J S cr agent_id payload)"
  unfolding upsert_budget_def upsert_row_def find_agent_def Let_def
  by (intro fails_intros error_intros fails_require_role) simp_all

lemma fails_create_policy: "fails_with (http_in {401, 403, 409}) (create_policy J S cr payload)"
  unfolding create_policy_def Let_def by (intro fails_intros fails_require_role fails_conflict) simp_all

lemma fails_evaluate_intent: "fails_with (http_in {401, 403, 408}) (evaluate_intent J S sched cr i)"
  unfolding evaluate_intent_def
proof (intro fails_intros fails_require_principal fails_catch [where P = "http_in {}"])
  show "fails_with (http_in {401, 403, 408}) (case e of ApprovalRejectedError s \<Rightarrow> raise (HTTPException 403 s)
       | ApprovalTimeoutError s \<Rightarrow> raise (HTTPException 408 s) | _ \<Rightarrow> raise e)" if "http_in {} e" for e
    using that by (cases e) (auto intro: fails_intros)
qed simp_all

lemma fails_get_hitl: "fails_with (http_in {401, 403, 404}) (get_hitl J S cr t)"
  unfolding get_hitl_def find_by_id_def by (intro fails_intros error_intros fails_require_role) simp_all

lemma fails_resolve_hitl: "fails_with (http_in {401, 403, 404, 409}) (resolve_hitl J S cr t payload)"
proof -
  have "error_in (http_in C) (datetime_le x y)" for C x y
    by (simp add: error_in_def datetime_le_def)
  then show ?thesis unfolding resolve_hitl_def resolution_transaction_def find_by_id_def
    by (intro fails_intros error_intros fails_require_role) simp_all
qed

end
