(* ===== verification/Application.thy ===== *)
theory Application
  imports Failures
begin

text \<open>
  \<open>main.py\<close>: the application put together from validated settings, its start, and what a client
  gets for an exception.  Connecting to Redis, creating the tables and serving requests are the
  libraries': the operations of their connections, on a state of their own, are arguments.
\<close>

subsection \<open>The application\<close>

record cors_options =
  co_allow_origins :: "string list"
  co_allow_credentials :: bool
  co_allow_methods :: "string list"
  co_allow_headers :: "string list"

definition cors_middleware :: "settings \<Rightarrow> cors_options" where
  "cors_middleware s = \<lparr>co_allow_origins = cors_origins s, co_allow_credentials = False,
     co_allow_methods = [''GET'', ''POST'', ''PUT''],
     co_allow_headers = [''Authorization'', ''Content-Type'']\<rparr>"

text \<open>
  \<open>configure_logging\<close>: \<open>getattr(logging, settings.log_level)\<close> looks the level up by its name in the standard
  library's module; the same level configures \<open>logging\<close> and \<open>structlog\<close>.
\<close>

definition logging_level :: "string \<Rightarrow> int result" where
  "logging_level name =
     (case map_of [(''DEBUG'', 10), (''INFO'', 20), (''WARNING'', 30), (''ERROR'', 40), (''CRITICAL'', 50)] name of
        None \<Rightarrow> Inl (AttributeError name) | Some level \<Rightarrow> Inr level)"

record logging_options =
  lo_level :: int
  lo_format :: string
  lo_processors :: "string list"
  lo_bound_level :: int
  lo_cache_logger_on_first_use :: bool

definition configure_logging :: "settings \<Rightarrow> logging_options result" where
  "configure_logging s =
     bindR (logging_level (log_level s)) (\<lambda>level.
     Inr \<lparr>lo_level = level, lo_format = ''%(message)s'',
       lo_processors = [''merge_contextvars'', ''add_log_level'', ''TimeStamper'', ''JSONRenderer''],
       lo_bound_level = level, lo_cache_logger_on_first_use = True\<rparr>)"

record application =
  ap_title :: string
  ap_version :: string
  ap_cors :: cors_options
  ap_settings :: settings

text \<open>\<open>create_app\<close> runs when the module is imported, before anything has called \<open>get_settings\<close>.\<close>

definition create_app :: "(string \<Rightarrow> string option) \<Rightarrow> settings \<Rightarrow> application result" where
  "create_app url_scheme env =
     bindR (fst (get_settings url_scheme env None)) (\<lambda>s.
     bindR (configure_logging s) (\<lambda>_.
     Inr \<lparr>ap_title = app_name s, ap_version = app_version s, ap_cors = cors_middleware s, ap_settings = s\<rparr>))"

record redis_options =
  ro_url :: string
  ro_decode_responses :: bool
  ro_socket_timeout :: rat
  ro_health_check_interval :: int

definition redis_from_url :: "settings \<Rightarrow> redis_options" where
  "redis_from_url s = \<lparr>ro_url = redis_url s, ro_decode_responses = False,
     ro_socket_timeout = redis_socket_timeout_seconds s,
     ro_health_check_interval = redis_health_check_interval_seconds s\<rparr>"

text \<open>
  \<open>app.state\<close> after the start.  The interceptor holds the settings and the audit logger with its
  signer; the governor and the policy engine have no state of their own.
\<close>

record app_state =
  as_settings :: settings
  as_engine :: engine_options
  as_redis :: redis_options
  as_audit :: string
  as_interceptor :: service

text \<open>\<open>AgentInterceptor.__init__\<close>; the session factory and Redis are the world of its operations.\<close>

definition new_interceptor :: "platform \<Rightarrow> string \<Rightarrow> settings \<Rightarrow> service" where
  "new_interceptor P signer s = \<lparr>sv_platform = P, sv_settings = s\<lparr>audit_hmac_key := signer\<rparr>\<rparr>"

text \<open>
  What the libraries do on the connections of the application: \<open>redis.ping()\<close>, \<open>create_all\<close> on the engine,
  \<open>redis.aclose()\<close> and \<open>engine.dispose()\<close>.
\<close>

record 's connections =
  cn_ping :: "redis_options \<Rightarrow> ('s, unit) eff"
  cn_create_all :: "engine_options \<Rightarrow> ('s, unit) eff"
  cn_aclose :: "redis_options \<Rightarrow> ('s, unit) eff"
  cn_dispose :: "engine_options \<Rightarrow> ('s, unit) eff"

text \<open>\<open>lifespan\<close> up to its \<open>yield\<close>, and what follows it.\<close>

definition start_up :: "platform \<Rightarrow> 's connections \<Rightarrow> application \<Rightarrow> ('s, app_state) eff" where
  "start_up P cn app =
     (let s = ap_settings app; db = create_engine_and_sessionmaker s; redis = redis_from_url s
      in bindE (cn_ping cn redis) (\<lambda>_.
         bindE (cn_create_all cn db) (\<lambda>_.
         bindE (lift_result (new_signer (audit_hmac_key s))) (\<lambda>signer.
         ret \<lparr>as_settings = s, as_engine = db, as_redis = redis, as_audit = signer,
           as_interceptor = new_interceptor P signer s\<rparr>))))"

definition shut_down :: "'s connections \<Rightarrow> app_state \<Rightarrow> ('s, unit) eff" where
  "shut_down cn st = bindE (cn_aclose cn (as_redis st)) (\<lambda>_. cn_dispose cn (as_engine st))"

text \<open>The context manager around \<open>serving\<close>; its \<open>try\<close> begins only behind the start.\<close>

definition lifespan :: "platform \<Rightarrow> 's connections \<Rightarrow> application \<Rightarrow> (app_state \<Rightarrow> ('s, 'a) eff) \<Rightarrow> ('s, 'a) eff" where
  "lifespan P cn app serving =
     bindE (start_up P cn app) (\<lambda>st. finallyE (serving st) (shut_down cn st))"

text \<open>
  \<open>create_database_schema\<close>: \<open>create_all\<close> creates the tables that are not there, empty, and leaves
  the others as they are.
\<close>

record stored_tables =
  st_agents :: "agent list option"
  st_budgets :: "budget list option"
  st_policies :: "policy list option"
  st_audit_logs :: "audit_log list option"
  st_hitl_transactions :: "hitl_transaction list option"

definition created :: "'a list option \<Rightarrow> 'a list" where
  "created t = (case t of None \<Rightarrow> [] | Some rows \<Rightarrow> rows)"

definition create_database_schema :: "stored_tables \<Rightarrow> database" where
  "create_database_schema t = \<lparr>agents = created (st_agents t), budgets = created (st_budgets t),
     policies = created (st_policies t), audit_logs = created (st_audit_logs t),
     hitl_transactions = created (st_hitl_transactions t)\<rparr>"

definition tables_of :: "database \<Rightarrow> stored_tables" where
  "tables_of d = \<lparr>st_agents = Some (agents d), st_budgets = Some (budgets d), st_policies = Some (policies d),
     st_audit_logs = Some (audit_logs d), st_hitl_transactions = Some (hitl_transactions d)\<rparr>"

text \<open>A restart keeps the rows.\<close>

lemma schema_keeps_rows: "create_database_schema (tables_of d) = d"
  by (simp add: create_database_schema_def tables_of_def created_def)

subsection \<open>Answers\<close>

definition unhandled_exception_handler :: "py_exn \<Rightarrow> int \<times> string" where
  "unhandled_exception_handler e = (500, ''Internal server error'')"

text \<open>An HTTP error is answered as it is, every other exception by the handler.\<close>

fun error_response :: "py_exn \<Rightarrow> int \<times> string" where
  "error_response (HTTPException c detail) = (c, detail)"
| "error_response e = unhandled_exception_handler e"

text \<open>The status of an answer, where \<open>ok\<close> is the status of the route.\<close>

definition http_status :: "int \<Rightarrow> 'a result \<Rightarrow> int" where
  "http_status ok r = (case r of Inr _ \<Rightarrow> ok | Inl e \<Rightarrow> fst (error_response e))"

lemma http_status_in:
  assumes "fails_with (http_in C) m" and "insert ok (insert 500 C) \<subseteq> D"
  shows "http_status ok (fst (m w)) \<in> D"
proof (cases "fst (m w)")
  case (Inl e)
  then have "http_in C e" by (rule fails_withD [OF assms(1)])
  then show ?thesis using Inl assms(2)
    by (cases e) (auto simp: http_status_def unhandled_exception_handler_def)
qed (use assms(2) in \<open>simp add: http_status_def\<close>)

text \<open>The health check answers 200 exactly when Redis and the database do, and changes nothing.\<close>

lemma health_answers:
  assumes "obeys same_session ping"
  shows "(\<exists>w'. health ping select_1 w = (Inr \<lparr>he_status = ''ok'', he_database = ''ok'', he_redis = ''ok''\<rparr>, w'))
      \<longleftrightarrow> fst (ping w) = Inr () \<and> (\<exists>n. select_1 (w_db w) = Inr n)"
    and "w_db (snd (health ping select_1 w)) = w_db w"
proof -
  obtain r w1 where ping: "ping w = (r, w1)" by fastforce
  have db: "w_db w1 = w_db w" by (rule same_sessionD(1) [OF assms ping])
  show "(\<exists>w'. health ping select_1 w = (Inr \<lparr>he_status = ''ok'', he_database = ''ok'', he_redis = ''ok''\<rparr>, w'))
      \<longleftrightarrow> fst (ping w) = Inr () \<and> (\<exists>n. select_1 (w_db w) = Inr n)"
    and "w_db (snd (health ping select_1 w)) = w_db w"
    by (cases r; cases "select_1 (w_db w1)";
        simp add: health_def ping db bindE_def with_session_def execute_def ret_def)+
qed

text \<open>
  The settings the guards of the endpoints read (\<open>Depends(get_settings)\<close>) are those the application was
  created from, whatever the environment holds by then, and logging never keeps it from being created.
\<close>

lemma create_app_settings:
  "create_app url_scheme env = Inr app \<longleftrightarrow> new_settings url_scheme env = Inr env
     \<and> app = \<lparr>ap_title = app_name env, ap_version = app_version env, ap_cors = cors_middleware env, ap_settings = env\<rparr>"
proof -
  have "\<exists>o'. configure_logging env = Inr o'" if "new_settings url_scheme env = Inr s" for s
    using new_settings_Inr(2) [OF that] by (auto simp: configure_logging_def logging_level_def)
  then show ?thesis
    using new_settings_Inr(1) [of url_scheme env]
    by (auto simp: create_app_def get_settings_def bindR_eq_Inr split: sum.splits)
qed

lemma guards_use_app_settings:
  assumes "create_app url_scheme env = Inr app"
  shows "get_settings url_scheme env' (snd (get_settings url_scheme env None)) = (Inr (ap_settings app), Some env)"
  using assms by (auto simp: create_app_settings get_settings_def)

subsection \<open>Properties\<close>

text \<open>
  Every endpoint answers with the status of its route, one of the few error codes it raises on
  purpose, or 500; in particular no exception of the governor, the policy engine, the audit log
  or the interceptor reaches a client as another status.
\<close>

theorem endpoint_statuses:
  "http_status 201 (fst (register_agent J S cr agent_body w)) \<in> {201, 401, 403, 409, 500}
   \<and> http_status 200 (fst (upsert_budget J S cr agent_id budget_body w)) \<in> {200, 401, 403, 404, 422, 500}
   \<and> http_status 201 (fst (create_policy J S cr policy_body w)) \<in> {201, 401, 403, 409, 500}
   \<and> http_status 200 (fst (evaluate_intent J S sched cr i w)) \<in> {200, 401, 403, 408, 500}
   \<and> http_status 200 (fst (get_hitl J S cr tid w)) \<in> {200, 401, 403, 404, 500}
   \<and> http_status 200 (fst (resolve_hitl J S cr tid resolution w)) \<in> {200, 401, 403, 404, 409, 500}"
  by (intro conjI http_status_in [OF fails_register_agent] http_status_in [OF fails_upsert_budget]
      http_status_in [OF fails_create_policy] http_status_in [OF fails_evaluate_intent]
      http_status_in [OF fails_get_hitl] http_status_in [OF fails_resolve_hitl]) simp_all

text \<open>
  An application that could be created starts whenever Redis answers and the tables can be
  created: the audit signer accepts the key, the interceptor works with the very settings that
  were validated, and the database is opened as SQLite without a pool or as PostgreSQL with a
  pool of 1 to 100 connections.
\<close>

theorem created_app_starts:
  assumes "create_app url_scheme env = Inr app" and "cn_ping cn (redis_from_url env) l = (Inr (), l1)"
    and "cn_create_all cn (create_engine_and_sessionmaker env) l1 = (Inr (), l2)"
  shows "\<exists>st. start_up P cn app l = (Inr st, l2) \<and> as_redis st = redis_from_url env
    \<and> as_engine st = create_engine_and_sessionmaker env
    \<and> as_interceptor st = \<lparr>sv_platform = P, sv_settings = env\<rparr> \<and> 32 \<le> length (as_audit st)
    \<and> (prefix ''sqlite+aiosqlite://'' (database_url env) \<and> eo_pool_size (as_engine st) = None
       \<or> prefix ''postgresql+asyncpg://'' (database_url env)
         \<and> (\<exists>n \<in> {1..100}. eo_pool_size (as_engine st) = Some n))"
proof -
  from assms(1) have s: "new_settings url_scheme env = Inr env" and app: "ap_settings app = env"
    by (simp_all add: create_app_settings)
  note v = validated_settings [OF s]
  have "start_up P cn app l = (Inr \<lparr>as_settings = env, as_engine = create_engine_and_sessionmaker env,
      as_redis = redis_from_url env, as_audit = audit_hmac_key env,
      as_interceptor = \<lparr>sv_platform = P, sv_settings = env\<rparr>\<rparr>, l2)"
    using v assms(2,3) app by (simp add: start_up_def new_signer_def new_interceptor_def Let_def eff_simps)
  then show ?thesis using v by auto
qed

text \<open>
  C32: An application that could be created and whose Redis answers serves, on the settings that were
  validated, exactly when its tables can be created, and then both connections are
  closed, however serving ends, and its outcome is what counts; when the tables cannot be
  created it raises that error and neither connection is closed.
\<close>

theorem lifespan_closes:
  assumes "create_app url_scheme env = Inr app"
    and "\<And>r l. cn_aclose cn r l = (Inr (), close_redis l)" and "\<And>o' l. cn_dispose cn o' l = (Inr (), close_engine l)"
    and "cn_ping cn (redis_from_url env) l = (Inr (), l1)"
    and "cn_create_all cn (create_engine_and_sessionmaker env) l1 = (c, l2)"
  shows "case c of Inl e \<Rightarrow> lifespan P cn app serving l = (Inl e, l2)
    | Inr _ \<Rightarrow> \<exists>st r v. as_interceptor st = \<lparr>sv_platform = P, sv_settings = env\<rparr> \<and> serving st l2 = (r, v)
        \<and> lifespan P cn app serving l = (r, close_engine (close_redis v))"
proof (cases c)
  case (Inl e)
  have "ap_settings app = env" using assms(1) by (simp add: create_app_settings)
  then have "start_up P cn app l = (Inl e, l2)"
    using assms(4,5) Inl by (simp add: start_up_def Let_def bindE_def)
  then show ?thesis using Inl by (simp add: lifespan_def bindE_def)
next
  case (Inr u)
  then obtain st where st: "start_up P cn app l = (Inr st, l2)"
    and interceptor: "as_interceptor st = \<lparr>sv_platform = P, sv_settings = env\<rparr>"
    using created_app_starts [OF assms(1,4), of l2 P] assms(5) by auto
  obtain r v where run: "serving st l2 = (r, v)" by fastforce
  have "lifespan P cn app serving l = (r, close_engine (close_redis v))"
    using st run assms(2,3) by (simp add: lifespan_def finallyE_def shut_down_def bindE_def)
  then show ?thesis using Inr interceptor run by auto
qed

text \<open>Connections as two flags: Redis and the engine are open.\<close>

definition flag_connections :: "unit result \<Rightarrow> (bool \<times> bool) connections" where
  "flag_connections schema = \<lparr>cn_ping = (\<lambda>_ (r, d). (Inr (), (True, d))), cn_create_all = (\<lambda>_ (r, d). (schema, (r, True))),
     cn_aclose = (\<lambda>_ (r, d). (Inr (), (False, d))), cn_dispose = (\<lambda>_ (r, d). (Inr (), (r, False)))\<rparr>"

lemma lifespan_closes_witness:
  "\<exists>app. create_app sample_scheme sample_settings = Inr app
    \<and> lifespan sample_platform (flag_connections (Inr ())) app (\<lambda>st. raise OutsideModel :: (bool \<times> bool, unit) eff) (False, False)
        = (Inl OutsideModel, (False, False))
    \<and> lifespan sample_platform (flag_connections (Inl IntegrityError)) app (\<lambda>st. ret ()) (False, False)
        = (Inl IntegrityError, (True, True))"
proof -
  have "\<not> isl (create_app sample_scheme sample_settings)" by code_simp
  then obtain app where app: "create_app sample_scheme sample_settings = Inr app"
    by (cases "create_app sample_scheme sample_settings") auto
  note closes = lifespan_closes [OF app, of "flag_connections c" "\<lambda>(r, d). (False, d)" "\<lambda>(r, d). (r, False)"
      "(False, False)" "(True, False)" c "(True, True)" sample_platform for c]
  have "lifespan sample_platform (flag_connections (Inr ())) app (\<lambda>st. raise OutsideModel :: (bool \<times> bool, unit) eff) (False, False)
        = (Inl OutsideModel, (False, False))"
    using closes [of "Inr ()" "\<lambda>st. raise OutsideModel :: (bool \<times> bool, unit) eff"]
    by (auto simp: flag_connections_def raise_def)
  moreover have "lifespan sample_platform (flag_connections (Inl IntegrityError)) app (\<lambda>st. ret ()) (False, False)
        = (Inl IntegrityError, (True, True))"
    using closes [of "Inl IntegrityError" "\<lambda>st. ret ()"] by (auto simp: flag_connections_def)
  ultimately show ?thesis using app by blast
qed

end
