(* ===== verification/Http_Service.thy ===== *)
theory Http_Service
  imports Application Service_Steps
begin

text \<open>
  The application as clients see it: a request goes to its endpoint, the framework turns what the
  endpoint returns or raises into an answer, and the middleware of \<open>main.py\<close> stands in front of
  that.  The framework, the schedule and the two probes of the health check are arguments.
\<close>

subsection \<open>Requests and answers\<close>

text \<open>
  What the framework makes of a request body: no JSON at all, JSON without the fields of the schema or
  with values of other types, or the fields (an omitted one has its default), which the schema
  still has to accept.
\<close>

datatype 'f body = Unparsable | Mistyped | Fields 'f

text \<open>The routes of the router, with the parsed \<open>Authorization\<close> header.\<close>

type_synonym dict = "(string \<times> json) list"

datatype request =
    PostToken "(string \<times> string list) body"
  | GetHealth
  | PostAgent credentials "(string \<times> string \<times> string \<times> string list \<times> string \<times> dict) body"
  | PutBudget credentials string "(dec \<times> string) body"
  | PostPolicy credentials "(string \<times> int \<times> bool \<times> int \<times> dict) body"
  | PostIntent credentials "(string \<times> string \<times> dict \<times> dec option \<times> string option \<times> string \<times> string option) body"
  | GetHitl credentials string
  | PostResolution credentials string "(string \<times> string option) body"

datatype content =
    TokenContent token_response
  | HealthContent health_response
  | AgentContent agent_response
  | BudgetContent budget_response
  | PolicyContent policy_response
  | DecisionContent policy_decision
  | HitlContent hitl_response
  | Detail string

record http_response =
  ht_status :: int
  ht_content :: content

text \<open>\<open>None\<close> is an evaluation that is still waiting when the schedule ends.\<close>

type_synonym handler = "request \<Rightarrow> http_response option op"

definition answer :: "int \<Rightarrow> ('a \<Rightarrow> content) \<Rightarrow> 'a op \<Rightarrow> http_response option op" where
  "answer status f m = bindE m (\<lambda>x. ret (Some \<lparr>ht_status = status, ht_content = f x\<rparr>))"

text \<open>What the endpoints take from \<open>app.state\<close>.\<close>

definition interceptor_from_request :: "app_state \<Rightarrow> service" where
  "interceptor_from_request st = as_interceptor st"

text \<open>
  FastAPI reads the JSON first, then runs the dependencies (\<open>guard\<close>, whose HTTP errors end the request),
  and then validates the body; a body that does not validate is answered 422.
\<close>

definition unprocessable :: "'a op" where
  "unprocessable = raise (HTTPException 422 ''Unprocessable Entity'')"

fun with_body :: "'g op \<Rightarrow> ('f \<Rightarrow> 'b result) \<Rightarrow> 'f body \<Rightarrow> ('b \<Rightarrow> 'a op) \<Rightarrow> 'a op" where
  "with_body guard validate Unparsable endpoint = unprocessable"
| "with_body guard validate Mistyped endpoint = bindE guard (\<lambda>_. unprocessable)"
| "with_body guard validate (Fields given) endpoint =
     (case validate given of
        Inr payload \<Rightarrow> endpoint payload
      | Inl e \<Rightarrow> if e = OutsideModel then raise e else bindE guard (\<lambda>_. unprocessable))"

definition roles_guard :: "jwt_library \<Rightarrow> service \<Rightarrow> string list \<Rightarrow> credentials \<Rightarrow> principal op" where
  "roles_guard J S = require_role J (sv_settings S)"

fun dispatch :: "jwt_library \<Rightarrow> schedule \<Rightarrow> unit op \<Rightarrow> (database \<Rightarrow> int result) \<Rightarrow> app_state \<Rightarrow> handler" where
  "dispatch J sched ping select_1 st (PostToken body) =
     with_body (ret ()) (\<lambda>(s, rs). new_token_request s rs) body (\<lambda>payload.
       answer 200 TokenContent (issue_token J (as_settings st) payload))"
| "dispatch J sched ping select_1 st GetHealth = answer 200 HealthContent (health ping select_1)"
| "dispatch J sched ping select_1 st (PostAgent credentials body) =
     with_body (roles_guard J (interceptor_from_request st) [''admin'', ''operator''] credentials)
       (\<lambda>(i, n, t, as, r, m). new_agent_create i n t as r m) body (\<lambda>payload.
       answer 201 AgentContent (register_agent J (interceptor_from_request st) credentials payload))"
| "dispatch J sched ping select_1 st (PutBudget credentials agent_id body) =
     with_body (roles_guard J (interceptor_from_request st) [''admin'', ''operator''] credentials)
       (\<lambda>(l, c). new_budget_upsert l c) body (\<lambda>payload.
       answer 200 BudgetContent (upsert_budget J (interceptor_from_request st) credentials agent_id payload))"
| "dispatch J sched ping select_1 st (PostPolicy credentials body) =
     with_body (roles_guard J (interceptor_from_request st) [''admin'', ''operator''] credentials)
       (\<lambda>(n, v, e, p, d). new_policy_create n v e p d) body (\<lambda>payload.
       answer 201 PolicyContent (create_policy J (interceptor_from_request st) credentials payload))"
| "dispatch J sched ping select_1 st (PostIntent credentials body) =
     with_body (require_principal J (sv_settings (interceptor_from_request st)) credentials)
       (\<lambda>(i, a, p, x, c, k, r). new_execution_intent i a p x c k r) body (\<lambda>payload.
       bindE (evaluate_intent J (interceptor_from_request st) sched credentials payload) (\<lambda>decision.
       ret (map_option (\<lambda>d. \<lparr>ht_status = 200, ht_content = DecisionContent d\<rparr>) decision)))"
| "dispatch J sched ping select_1 st (GetHitl credentials i) =
     answer 200 HitlContent (get_hitl J (interceptor_from_request st) credentials i)"
| "dispatch J sched ping select_1 st (PostResolution credentials i body) =
     with_body (roles_guard J (interceptor_from_request st) [''admin'', ''approver''] credentials)
       (\<lambda>(d, c). new_hitl_resolution d c) body (\<lambda>payload.
       answer 200 HitlContent (resolve_hitl J (interceptor_from_request st) credentials i payload))"

subsection \<open>The layers around the router\<close>

text \<open>
  What FastAPI documents: behind all middleware an \<open>HTTPException\<close> is answered with its status and detail, in
  front of it any other exception by the handler registered for \<open>Exception\<close>.
\<close>

definition http_exceptions :: "handler \<Rightarrow> handler" where
  "http_exceptions h request = catchE (h request) (\<lambda>e.
     case e of HTTPException c detail \<Rightarrow> ret (Some \<lparr>ht_status = c, ht_content = Detail detail\<rparr>) | _ \<Rightarrow> raise e)"

definition server_errors :: "(py_exn \<Rightarrow> int \<times> string) \<Rightarrow> handler \<Rightarrow> handler" where
  "server_errors f h request = catchE (h request) (\<lambda>e.
     ret (Some \<lparr>ht_status = fst (f e), ht_content = Detail (snd (f e))\<rparr>))"

text \<open>
  What a call in Python can hand back where an awaitable is expected: a coroutine, or the asynchronous
  context manager that a function decorated with \<open>asynccontextmanager\<close> returns; it only holds
  what the function returned, nothing of its body has run.  A context manager has no \<open>__await__\<close>.
\<close>

datatype 'a awaitable = Coroutine "'a op" | AsyncContextManager "'a awaitable"

fun await :: "'a awaitable \<Rightarrow> 'a op" where
  "await (Coroutine m) = m"
| "await (AsyncContextManager f) =
     raise (TypeError ''object _AsyncGeneratorContextManager can't be used in 'await' expression'')"

definition asynccontextmanager :: "('q \<Rightarrow> 'n \<Rightarrow> 'a awaitable) \<Rightarrow> 'q \<Rightarrow> 'n \<Rightarrow> 'a awaitable" where
  "asynccontextmanager f request call_next = AsyncContextManager (f request call_next)"

text \<open>
  \<open>session_middleware\<close>: the undecorated function opens a session, on which no statement runs, and
  hands the request on.
\<close>

definition session_middleware :: "request \<Rightarrow> handler \<Rightarrow> http_response option awaitable" where
  "session_middleware = asynccontextmanager (\<lambda>request call_next.
     Coroutine (bindE (call_next request) (\<lambda>response. ret response)))"

text \<open>\<open>app.middleware("http")(d)\<close> awaits what \<open>d(request, call_next)\<close> hands back.\<close>

definition http_middleware :: "(request \<Rightarrow> handler \<Rightarrow> http_response option awaitable) \<Rightarrow> handler \<Rightarrow> handler" where
  "http_middleware d h request = await (d request h)"

text \<open>The framework is an argument, and the documented behaviour a hypothesis on it; none on CORS is needed.\<close>

record framework =
  fw_cors :: "cors_options \<Rightarrow> handler \<Rightarrow> handler"
  fw_http_middleware :: "(request \<Rightarrow> handler \<Rightarrow> http_response option awaitable) \<Rightarrow> handler \<Rightarrow> handler"
  fw_http_exceptions :: "handler \<Rightarrow> handler"
  fw_exception_handler :: "(py_exn \<Rightarrow> int \<times> string) \<Rightarrow> handler \<Rightarrow> handler"

definition as_documented :: "framework \<Rightarrow> bool" where
  "as_documented fw \<longleftrightarrow> fw_http_middleware fw = http_middleware
     \<and> fw_http_exceptions fw = http_exceptions \<and> fw_exception_handler fw = server_errors"

text \<open>The stack of \<open>create_app\<close>; the middleware added last is the outermost.\<close>

definition serve :: "framework \<Rightarrow> application \<Rightarrow> handler \<Rightarrow> handler" where
  "serve fw app router =
     fw_exception_handler fw unhandled_exception_handler
       (fw_http_middleware fw session_middleware
         (fw_cors fw (ap_cors app) (fw_http_exceptions fw router)))"

text \<open>The same stack without the middleware, for what the router is meant to answer.\<close>

definition routed :: "framework \<Rightarrow> handler \<Rightarrow> handler" where
  "routed fw router = fw_exception_handler fw unhandled_exception_handler (fw_http_exceptions fw router)"

lemma routed_documented:
  "as_documented fw \<Longrightarrow> routed fw router = server_errors unhandled_exception_handler (http_exceptions router)"
  by (simp add: routed_def as_documented_def)

definition sample_framework :: framework where
  "sample_framework = \<lparr>fw_cors = (\<lambda>_ h. h), fw_http_middleware = http_middleware,
     fw_http_exceptions = http_exceptions, fw_exception_handler = server_errors\<rparr>"

lemma sample_framework_documented: "as_documented sample_framework"
  by (simp add: as_documented_def sample_framework_def)

subsection \<open>Statuses\<close>

fun statuses :: "request \<Rightarrow> int set" where
  "statuses (PostToken body) = {200, 422, 500}"
| "statuses GetHealth = {200, 500}"
| "statuses (PostAgent credentials body) = {201, 401, 403, 409, 422, 500}"
| "statuses (PutBudget credentials agent_id body) = {200, 401, 403, 404, 422, 500}"
| "statuses (PostPolicy credentials body) = {201, 401, 403, 409, 422, 500}"
| "statuses (PostIntent credentials body) = {200, 401, 403, 408, 422, 500}"
| "statuses (GetHitl credentials i) = {200, 401, 403, 404, 500}"
| "statuses (PostResolution credentials i body) = {200, 401, 403, 404, 409, 422, 500}"

text \<open>A schedule that stops before the deadline of an approval.\<close>

definition stops_early :: "app_state \<Rightarrow> schedule \<Rightarrow> bool" where
  "stops_early st sched \<longleftrightarrow> (\<forall>p \<in> set (sc_polls sched).
     pl_time p < sc_start sched + approval_timeout_seconds (sv_settings (as_interceptor st)) * 1000000)"

lemma rejected_Inr:
  assumes "catchE m (\<lambda>e. case e of ApprovalRejectedError s \<Rightarrow> raise (HTTPException 403 s)
       | ApprovalTimeoutError s \<Rightarrow> raise (HTTPException 408 s) | _ \<Rightarrow> raise e) w = (Inr x, v)"
  shows "m w = (Inr x, v)"
proof -
  obtain r w' where run: "m w = (r, w')" by fastforce
  show ?thesis
  proof (cases r)
    case (Inl e)
    then show ?thesis using assms run by (cases e) (simp_all add: catchE_def raise_def)
  qed (use assms run in \<open>simp add: catchE_def\<close>)
qed

lemma intent_waiting:
  assumes "evaluate_intent J (as_interceptor st) sched cr payload w = (Inr None, v)"
  shows "stops_early st sched"
proof -
  let ?S = "as_interceptor st"
  from assms obtain u v' where "evaluate_or_wait ?S sched payload u v' = (Inr None, v)"
    unfolding evaluate_intent_def bindE_Inr by (blast dest: rejected_Inr)
  then obtain r u' where "(case r of Inl d \<Rightarrow> ret (Some d)
     | Inr d \<Rightarrow> (case pd_hitl_transaction_id d of
          Some tid \<Rightarrow> if pd_outcome d = RequireApproval \<and> tid \<noteq> []
            then bindE (publish_hitl_request tid) (\<lambda>_.
              await_resolution ?S payload tid u (sc_start sched) (sc_polls sched))
            else ret (Some d)
        | None \<Rightarrow> ret (Some d))) u' = (Inr None, v)"
    unfolding evaluate_or_wait_def bindE_Inr by blast
  then obtain tid w' where "await_resolution ?S payload tid u (sc_start sched) (sc_polls sched) w' = (Inr None, v)"
    by (cases r) (auto simp: bindE_Inr ret_def split: option.split_asm if_split_asm)
  then show ?thesis
    unfolding stops_early_def await_resolution_def
    using await_loop_answers by (metis fst_conv not_less)
qed

lemma routed_answers:
  assumes "as_documented fw" and "fails_with (http_in C) (h request)" and "insert 500 C \<subseteq> D"
    and "\<And>x v. h request w = (Inr (Some x), v) \<Longrightarrow> ht_status x \<in> D"
    and "\<And>v. h request w = (Inr None, v) \<Longrightarrow> R"
  shows "\<exists>x v. routed fw h request w = (Inr x, v) \<and> (case x of None \<Rightarrow> R | Some y \<Rightarrow> ht_status y \<in> D)"
proof -
  obtain r v where run: "h request w = (r, v)" by fastforce
  show ?thesis
  proof (cases r)
    case (Inl e)
    then have "http_in C e" using fails_withD [OF assms(2), of w e] run by simp
    then show ?thesis using run Inl assms(3)
      by (cases e) (auto simp: routed_documented [OF assms(1)] server_errors_def http_exceptions_def catchE_def ret_def
          raise_def unhandled_exception_handler_def)
  next
    case (Inr x)
    then show ?thesis using run assms(4,5)
      by (auto simp: routed_documented [OF assms(1)] server_errors_def http_exceptions_def catchE_def split: option.split)
  qed
qed

lemma answer_status: "answer status f m w = (Inr (Some x), v) \<Longrightarrow> ht_status x = status"
  by (auto simp: answer_def bindE_Inr ret_def)

lemma fails_answer: "fails_with (http_in C) m \<Longrightarrow> fails_with (http_in C) (answer status f m)"
  unfolding answer_def by (intro fails_intros)

lemma fails_issue_token: "fails_with (http_in C) (issue_token J s body)"
  unfolding issue_token_def create_access_token_def by (intro fails_intros)

lemma fails_health:
  assumes "fails_with (http_in {}) ping" and "\<And>d. error_in (http_in {}) (select_1 d)"
  shows "fails_with (http_in {}) (health ping select_1)"
  unfolding health_def by (intro fails_intros assms) simp_all

lemma fails_with_body:
  fixes endpoint :: "'b \<Rightarrow> 'a op"
  assumes "422 \<in> C" and "fails_with (http_in C) guard" and "\<And>payload. fails_with (http_in C) (endpoint payload)"
  shows "fails_with (http_in C) (with_body guard validate body endpoint)"
proof -
  have u: "fails_with (http_in C) (unprocessable :: 'a op)" unfolding unprocessable_def using assms(1) by (intro fails_intros) simp
  have "fails_with (http_in C) (raise OutsideModel :: 'a op)" by (intro fails_intros) simp
  then show ?thesis using u fails_bind [OF assms(2) u] assms(3) by (cases body) (simp_all split: sum.split)
qed

lemma with_body_Inr:
  "with_body guard validate body endpoint w = (Inr x, v) \<Longrightarrow> \<exists>payload. endpoint payload w = (Inr x, v)"
  by (cases body) (auto simp: unprocessable_def bindE_Inr raise_def split: sum.splits if_splits)

lemma fails_guard:
  "fails_with (http_in {401, 403}) (roles_guard J S roles cr)"
  "fails_with (http_in {401}) (require_principal J s cr)"
  unfolding roles_guard_def by (simp_all add: fails_require_role fails_require_principal)

lemma fails_dispatch:
  assumes "fails_with (http_in {}) ping" and "\<And>d. error_in (http_in {}) (select_1 d)"
  shows "fails_with (http_in (statuses request - {200, 201, 500})) (dispatch J sched ping select_1 st request)"
proof (cases request)
  case (PostIntent credentials body)
  show ?thesis unfolding PostIntent dispatch.simps statuses.simps
    by (intro fails_with_body fails_intros fails_with_mono [OF fails_evaluate_intent] fails_with_mono [OF fails_guard(2)])
      auto
qed (auto intro!: fails_with_body fails_answer fails_issue_token fails_with_mono [OF fails_guard(1)] fails_base(1)
    fails_with_mono [OF fails_health [OF assms]]
    fails_with_mono [OF fails_register_agent] fails_with_mono [OF fails_upsert_budget]
    fails_with_mono [OF fails_create_policy] fails_with_mono [OF fails_get_hitl]
    fails_with_mono [OF fails_resolve_hitl])

lemma dispatch_status:
  assumes "dispatch J sched ping select_1 st request w = (Inr (Some x), v)"
  shows "ht_status x \<in> statuses request"
  using assms by (cases request) (auto dest!: with_body_Inr dest: answer_status simp: bindE_Inr ret_def)

lemma answer_some: "answer status f m w \<noteq> (Inr None, v)"
  by (auto simp: answer_def bindE_Inr ret_def)

lemma dispatch_waiting:
  assumes "dispatch J sched ping select_1 st request w = (Inr None, v)"
  shows "\<exists>credentials body. request = PostIntent credentials body" and "stops_early st sched"
  using assms
  by (cases request; auto dest!: with_body_Inr dest: intent_waiting
      simp: answer_some bindE_Inr ret_def interceptor_from_request_def)+

subsection \<open>Requests one after the other\<close>

fun serve_all :: "handler \<Rightarrow> request list \<Rightarrow> http_response option list op" where
  "serve_all h [] = ret []"
| "serve_all h (request # requests) = bindE (h request) (\<lambda>x. bindE (serve_all h requests) (\<lambda>xs. ret (x # xs)))"

lemma serve_one: "snd (serve_all h [request] w) = snd (h request w)"
  by (simp add: bindE_def ret_def split: prod.split sum.split)

lemma outer_routed:
  assumes "as_documented fw" and "obeys (steps.outer S) (h request)"
  shows "obeys (steps.outer S) (routed fw h request)"
  unfolding routed_documented [OF assms(1)] server_errors_def http_exceptions_def
  by (intro steps.outside.obeys_intros assms(2)) (auto split: py_exn.split intro: steps.outside.obeys_intros)

lemma outer_answer: "obeys (steps.outer S) m \<Longrightarrow> obeys (steps.outer S) (answer status f m)"
  unfolding answer_def by (intro steps.outside.obeys_intros)

lemma outer_health: "obeys same_session ping \<Longrightarrow> obeys (steps.outer S) (health ping select_1)"
  unfolding health_def
  by (intro steps.obeys_outer steps.inner_outer [OF steps.obeys_quiet] step_intros)

lemma outer_issue_token: "obeys (steps.outer S) (issue_token J s body)"
  unfolding issue_token_def create_access_token_def
  by (intro steps.outside.obeys_intros steps_now)

lemma outer_with_body:
  fixes endpoint :: "'b \<Rightarrow> 'a op"
  assumes "obeys (steps.outer S) guard"
    and "\<And>given payload. validate given = Inr payload \<Longrightarrow> obeys (steps.outer S) (endpoint payload)"
  shows "obeys (steps.outer S) (with_body guard validate body endpoint)"
proof -
  have u: "obeys (steps.outer S) (unprocessable :: 'a op)" "obeys (steps.outer S) (raise OutsideModel :: 'a op)"
    unfolding unprocessable_def by (intro steps.outside.obeys_intros)+
  have "obeys (steps.outer S) (bindE guard (\<lambda>_. unprocessable :: 'a op))" by (intro steps.outside.obeys_intros assms(1) u(1))
  then show ?thesis using u assms(2) by (cases body) (simp_all split: sum.split)
qed

text \<open>The limit that reaches the endpoint has passed its validation.\<close>

lemma limit_checked:
  "new_budget_upsert l c = Inr payload \<Longrightarrow> amount_field (bp_limit_amount payload) = Inr (bp_limit_amount payload)"
  using amount_field_result [of l] by (auto simp: new_budget_upsert_def bindR_eq_Inr)

lemma outer_guard:
  "obeys (steps.outer S) (roles_guard J S' roles cr)" "obeys (steps.outer S) (require_principal J s cr)"
  unfolding roles_guard_def
  by (rule steps_require_role) (intro steps.inner_outer steps.obeys_quiet quiet_require_principal)

lemma outer_dispatch:
  assumes "others_ok (as_interceptor st) sched" and "obeys same_session ping"
  shows "obeys (steps.outer (as_interceptor st)) (dispatch J sched ping select_1 st request)"
proof (cases request)
  case (PostIntent credentials body)
  then show ?thesis using assms(1)
    by (auto simp: interceptor_from_request_def intro!: outer_with_body outer_guard steps.outside.obeys_intros
        steps_evaluate_intent)
qed (use assms in \<open>auto simp: interceptor_from_request_def intro!: outer_with_body outer_guard outer_answer outer_health
    outer_issue_token steps.outside.obeys_intros(1) steps_register_agent steps_upsert_budget [OF limit_checked]
    steps_create_policy steps_get_hitl steps_resolve_hitl\<close>)

lemma outer_serve_all:
  assumes "\<forall>request \<in> set requests. obeys (steps.outer S) (h request)"
  shows "obeys (steps.outer S) (serve_all h requests)"
  using assms by (induction requests) (auto intro!: steps.outside.obeys_intros)

subsection \<open>A registration on the sample service\<close>

definition sample_state :: app_state where
  "sample_state = \<lparr>as_settings = sample_settings, as_engine = create_engine_and_sessionmaker sample_settings,
     as_redis = redis_from_url sample_settings, as_audit = audit_hmac_key sample_settings,
     as_interceptor = sample_service\<rparr>"

definition sample_registration :: agent_create where
  "sample_registration = \<lparr>ac_id = ''agent-2'', ac_display_name = ''Seller'', ac_tenant_id = ''acme'',
     ac_allowed_actions = [''sell''], ac_risk_tier = ''low'', ac_metadata = []\<rparr>"

definition sample_post :: "string \<Rightarrow> request" where
  "sample_post token = PostAgent (Some (''Bearer'', token))
     (Fields (''agent-2'', '' Seller'', ''acme'', [''sell '', ''sell''], ''low'', []))"

lemma sample_accepted:
  "new_agent_create ''agent-2'' '' Seller'' ''acme'' [''sell '', ''sell''] ''low'' [] = Inr sample_registration"
  by code_simp

lemma sample_registered:
  obtains token w1 x v where "routed sample_framework (dispatch sample_jwt sample_schedule (ret ()) (\<lambda>_. Inr 1) sample_state)
      (sample_post token) w1 = (Inr (Some x), v)"
    and "ht_status x = 201" and "w_db w1 = sample_database"
    and "map ag_id (agents (w_db v)) = [''agent-1'', ''agent-2'']"
proof -
  define w1 w2 where "w1 = sample_world\<lparr>w_ticks := 1\<rparr>" and "w2 = sample_world\<lparr>w_ticks := 2\<rparr>"
  obtain token p where role: "require_role sample_jwt sample_settings [''admin'', ''operator''] (Some (''Bearer'', token)) w1 = (Inr p, w2)"
    and p: "actor p = ''alice''"
    unfolding w1_def w2_def by (rule sample_admin) (metis list.set_intros(1))
  have db: "w_db w2 = sample_database" "w_db w1 = sample_database" by (simp_all add: w1_def w2_def)
  define now where "now = Datetime (w_clock w2 (w_ticks w2)) True"
  let ?a = "new_agent sample_registration now"
  let ?w = "w2\<lparr>w_ticks := Suc (w_ticks w2), w_base := w_db w2, w_session_ok := True,
    w_db := sample_database\<lparr>agents := agents sample_database @ [stored_agent sample_platform ?a]\<rparr>\<rparr>"
  have "\<exists>q v. audit_append sample_service ''agent_registered'' ''alice'' (JObj [(''agent_id'', JStr (ag_id ?a))]) ?w = (Inr q, v)"
    by (rule append_empty) simp_all
  then obtain q v where app: "audit_append sample_service ''agent_registered'' ''alice'' (JObj [(''agent_id'', JStr (ag_id ?a))]) ?w = (Inr q, v)"
    by blast
  have "\<not> agent_clash ?a sample_database"
    by (simp add: agent_clash_def sample_database_def sample_agent_def new_agent_def sample_registration_def)
  then have "register_agent sample_jwt sample_service (Some (''Bearer'', token)) sample_registration w1
      = (Inr (agent_response_of ?a), v)"
    using role p app db
    by (simp add: register_agent_def bindE_def now_utc_def tick_def ret_def Let_def session_begin_def conflict_409_def
        catchE_def add_and_flush_def now_def sample_service_def)
  then have "routed sample_framework (dispatch sample_jwt sample_schedule (ret ()) (\<lambda>_. Inr 1) sample_state)
      (sample_post token) w1
      = (Inr (Some \<lparr>ht_status = 201, ht_content = AgentContent (agent_response_of ?a)\<rparr>), v)"
    by (simp add: routed_documented [OF sample_framework_documented] server_errors_def http_exceptions_def answer_def catchE_def bindE_def ret_def
        interceptor_from_request_def sample_state_def sample_post_def sample_accepted)
  moreover have "map ag_id (agents (w_db v)) = [''agent-1'', ''agent-2'']"
    using append_Inr(3) [OF app]
    by (simp add: sample_database_def sample_agent_def stored_agent_def new_agent_def sample_registration_def)
  ultimately show thesis using that db(2) by simp
qed

subsection \<open>Properties\<close>

text \<open>
  C31: As the application is put together, no request reaches the router: the session middleware hands
  back a context manager where a response is awaited, so every request is answered 500, whatever
  it asks, and nothing has happened; only the middleware in front of the router decides it.
\<close>

theorem every_request_fails:
  assumes "as_documented fw"
  shows "serve fw app router request w
     = (Inr (Some \<lparr>ht_status = 500, ht_content = Detail ''Internal server error''\<rparr>), w)"
  using assms
  by (simp add: as_documented_def serve_def server_errors_def http_middleware_def session_middleware_def
      asynccontextmanager_def catchE_def raise_def ret_def unhandled_exception_handler_def)

lemma every_request_fails_witness:
  "\<exists>app. create_app sample_scheme sample_settings = Inr app
    \<and> map_option ht_status (case fst (serve sample_framework app (dispatch sample_jwt sample_schedule (ret ()) (\<lambda>_. Inr 1) sample_state)
        GetHealth sample_world) of Inr x \<Rightarrow> x | Inl _ \<Rightarrow> None) = Some 500"
proof -
  have "\<not> isl (create_app sample_scheme sample_settings)" by code_simp
  then obtain app where app: "create_app sample_scheme sample_settings = Inr app"
    by (cases "create_app sample_scheme sample_settings") auto
  then show ?thesis by (simp add: every_request_fails [OF sample_framework_documented])
qed



text \<open>
  C19: Refinement: any sequence of requests, whatever their credentials and bodies and whether they
  succeed, takes the committed database along admissible steps of the service only: each body is
  validated by its schema before its endpoint sees it.
\<close>

theorem requests_refine_steps:
  assumes "as_documented fw" and "others_ok (as_interceptor st) sched" and "obeys same_session ping"
  shows "db_steps (as_interceptor st) (w_db w)
    (w_db (snd (serve_all (routed fw (dispatch J sched ping select_1 st)) requests w)))"
  using assms by (intro steps.outer_db outer_serve_all) (auto intro!: outer_routed [OF assms(1)] outer_dispatch)

lemma requests_refine_steps_witness:
  "\<exists>e. db_steps sample_service sample_database e \<and> map ag_id (agents e) = [''agent-1'', ''agent-2'']"
proof -
  let ?h = "routed sample_framework (dispatch sample_jwt sample_schedule (ret ()) (\<lambda>_. Inr 1) sample_state)"
  obtain token w1 x v where run: "?h (sample_post token) w1 = (Inr (Some x), v)"
    and db: "w_db w1 = sample_database" and ids: "map ag_id (agents (w_db v)) = [''agent-1'', ''agent-2'']"
    by (rule sample_registered)
  have S: "as_interceptor sample_state = sample_service" by (simp add: sample_state_def)
  have others: "others_ok sample_service sample_schedule"
    by (simp add: others_along_def sample_schedule_def idle_poll_def)
  have "obeys same_session (ret () :: unit op)" by (rule quiet.obeys_ret)
  from requests_refine_steps [OF sample_framework_documented _ this, where requests = "[sample_post token]"
      and st = sample_state and sched = sample_schedule and w = w1 and J = sample_jwt and ?select_1.0 = "\<lambda>_. Inr 1"]
  have "db_steps sample_service sample_database (w_db (snd (?h (sample_post token) w1)))"
    unfolding S db serve_one using others by simp
  with run ids show ?thesis by (metis snd_conv)
qed

end
