(* ===== verification/Reservation_Drift.thy ===== *)
theory Reservation_Drift
  imports Governor
begin

text \<open>
  Reservations of amounts with a fraction.  The script computes with doubles and keeps 14 digits, so
  the stored balance drifts; here the drift is bounded.  Every text the script reads or writes
  stands for a decimal number; \<open>lua_reads s v\<close> says which one.
\<close>

subsection \<open>One run of the script\<close>

definition lua_reads :: "string \<Rightarrow> rat \<Rightarrow> bool" where
  "lua_reads s v \<longleftrightarrow> (\<exists>x. sval 10 x = v \<and> lua_tonumber s = Some (round_scaled 2 53 10 x))"

text \<open>What a granted reservation may add to the sum of balance and amount, per unit of balance.\<close>

definition drift :: rat where
  "drift = 1 / 10 ^ 13"

lemma denotes_reads: "denotes s v \<Longrightarrow> lua_reads s v"
  unfolding lua_reads_def using denotes_lua by blast

lemma tostring_reads: "lua_reads (lua_tostring x) (sval 10 (round_scaled 10 14 2 x))"
proof (cases "fst x = 0")
  case True
  then have "lua_tostring x = ''0''" and "sval 10 (round_scaled 10 14 2 x) = 0"
    by (simp_all add: lua_tostring_def round_scaled_def round_ratio_def sval_def)
  then show ?thesis using denotes_reads [OF denotes_zero] by simp
next
  case False
  obtain c e where "number_text (lua_tostring x) c e" and "sval 10 (c, e) = sval 10 (round_scaled 10 14 2 x)"
    using lua_tostring_text [OF False] by blast
  then show ?thesis unfolding lua_reads_def using lua_tonumber_text by blast
qed

lemma double_error: "\<bar>sval 2 (round_scaled 2 53 b x) - sval b x\<bar> * 2 ^ 53 \<le> \<bar>sval b x\<bar>" if "0 < b"
  using round_scaled_error [of 2 53 b x] that by simp

text \<open>The arithmetic of the errors.\<close>

lemma drift_bound:
  fixes v w cx cy d p :: rat
  assumes "0 \<le> v" and "0 < w" and "\<bar>cx - v\<bar> * 2 ^ 53 \<le> \<bar>v\<bar>" and "\<bar>cy - w\<bar> * 2 ^ 53 \<le> \<bar>w\<bar>"
    and "cy \<le> cx" and "\<bar>d - (cx - cy)\<bar> * 2 ^ 53 \<le> \<bar>cx - cy\<bar>" and "\<bar>p - d\<bar> * (2 * 10 ^ 13) \<le> \<bar>d\<bar>"
  shows "0 \<le> p \<and> w + p \<le> v * (1 + drift)"
proof -
  have d: "0 \<le> d" "d * 2 ^ 53 \<le> (cx - cy) * (2 ^ 53 + 1)" using assms(5,6) by (simp_all add: abs_if split: if_splits)
  have p: "0 \<le> p" "p * (2 * 10 ^ 13) \<le> d * (2 * 10 ^ 13 + 1)"
    using assms(7) d(1) by (simp_all add: abs_if split: if_splits)
  have cx: "cx * 2 ^ 53 \<le> v * (2 ^ 53 + 1)" using assms(1,3) by (simp add: abs_if split: if_splits)
  have cy: "w * (2 ^ 53 - 1) \<le> cy * 2 ^ 53" using assms(2,4) by (simp add: abs_if split: if_splits)
  show ?thesis using p d cx cy assms(1,2) by (simp add: drift_def)
qed

lemma reserve_script_drift:
  assumes "lua_reads (case stored of None \<Rightarrow> argv1 | Some s \<Rightarrow> s) v" and "lua_reads argv2 w"
    and "0 \<le> v" and "0 < w"
  obtains (refused) l where "reserve_script stored argv1 argv2 = Some (None, - 1, l)"
    | (granted) s l v' where "reserve_script stored argv1 argv2 = Some (Some s, 1, l)"
        and "lua_reads s v'" and "0 \<le> v'" and "w + v' \<le> v * (1 + drift)"
proof -
  obtain x where x: "sval 10 x = v"
    "lua_tonumber (case stored of None \<Rightarrow> argv1 | Some s \<Rightarrow> s) = Some (round_scaled 2 53 10 x)"
    using assms(1) unfolding lua_reads_def by blast
  obtain y where y: "sval 10 y = w" "lua_tonumber argv2 = Some (round_scaled 2 53 10 y)"
    using assms(2) unfolding lua_reads_def by blast
  define cx cy where "cx = round_scaled 2 53 10 x" and "cy = round_scaled 2 53 10 y"
  define z where "z = lua_sub cx cy"
  have script: "reserve_script stored argv1 argv2 =
      (if sless 2 cx cy then Some (None, - 1, lua_to_integer cx) else Some (Some (lua_tostring z), 1, lua_to_integer z))"
    using x(2) y(2) by (simp add: reserve_script_def cx_def [symmetric] cy_def [symmetric] z_def Let_def)
  show thesis
  proof (cases "sless 2 cx cy")
    case True
    then show thesis using script refused by simp
  next
    case False
    then have le: "sval 2 cy \<le> sval 2 cx" by (simp add: sless_iff)
    have "\<bar>sval 2 z - (sval 2 cx - sval 2 cy)\<bar> * 2 ^ 53 \<le> \<bar>sval 2 cx - sval 2 cy\<bar>"
      using double_error [of 2 "sdiff 2 cx cy"] by (simp add: z_def lua_sub_def)
    moreover have "\<bar>sval 10 (round_scaled 10 14 2 z) - sval 2 z\<bar> * (2 * 10 ^ 13) \<le> \<bar>sval 2 z\<bar>"
      using round_scaled_error [of 10 14 2 z] by simp
    ultimately have "0 \<le> sval 10 (round_scaled 10 14 2 z) \<and> w + sval 10 (round_scaled 10 14 2 z) \<le> v * (1 + drift)"
      using double_error [of 10 x] double_error [of 10 y] x(1) y(1) assms(3,4) le
      by (intro drift_bound [where cx = "sval 2 cx" and cy = "sval 2 cy" and d = "sval 2 z"]) (simp_all add: cx_def cy_def)
    then show thesis using granted [OF _ tostring_reads] script False by simp
  qed
qed

subsection \<open>Reservations against one budget\<close>

text \<open>As for whole amounts: the stored number, or what the row leaves when there is no key.\<close>

definition stored_balance :: "world \<Rightarrow> int \<Rightarrow> string \<Rightarrow> string \<Rightarrow> rat \<Rightarrow> rat \<Rightarrow> bool" where
  "stored_balance w T a c left v \<longleftrightarrow>
     (case w_kv w (budget_key a c) of None \<Rightarrow> v = left
      | Some (s, expiry) \<Rightarrow> T + window \<le> expiry \<and> lua_reads s v)"

definition open_row :: "world \<Rightarrow> string \<Rightarrow> string \<Rightarrow> rat \<Rightarrow> bool" where
  "open_row w a c left \<longleftrightarrow> w_session_ok w \<and> 0 \<le> left \<and>
     (\<exists>b. find_row (is_budget a c) (budgets (w_db w)) = Inr (Some b) \<and> bu_active b
        \<and> printable (bu_limit_amount b - bu_consumed_amount b)
        \<and> dval (bu_limit_amount b - bu_consumed_amount b) = left)"

lemma printable_reads: "printable d \<Longrightarrow> lua_reads (dec_str d) (dval d)"
  using denotes_reads [OF denotes_dec_str [of d]] by (simp add: printable_def)

lemma reserve_drift:
  assumes row: "open_row w a c left" and st: "steady T w" and bal: "stored_balance w T a c left v"
    and v: "0 \<le> v" and x: "printable x" "0 < dval x"
  obtains (refused) r w' where "reserve a c x w = (Inr (False, r), w')" and "open_row w' a c left"
      and "steady T w'" and "stored_balance w' T a c left v" and "w_db w' = w_db w"
    | (granted) r w' v' where "reserve a c x w = (Inr (True, r), w')" and "open_row w' a c left"
      and "steady T w'" and "stored_balance w' T a c left v'" and "w_db w' = w_db w"
      and "dval x \<le> left" and "0 \<le> v'" and "dval x + v' \<le> v * (1 + drift)"
proof -
  obtain b where b: "find_row (is_budget a c) (budgets (w_db w)) = Inr (Some b)" "bu_active b"
    and left: "printable (bu_limit_amount b - bu_consumed_amount b)" "dval (bu_limit_amount b - bu_consumed_amount b) = left"
    and ok: "w_session_ok w" and left0: "0 \<le> left"
    using row unfolding open_row_def by blast
  let ?left = "bu_limit_amount b - bu_consumed_amount b" and ?key = "budget_key a c"
  define t where "t = w_clock w (w_ticks w)"
  define w1 where "w1 = w\<lparr>w_ticks := Suc (w_ticks w)\<rparr>"
  note run = reserve_eval [OF ok b x(2), unfolded left(2), OF left0, folded t_def w1_def]
  show thesis
  proof (cases "left < dval x")
    case True
    then have "reserve a c x w = (Inr (False, Some ?left), w)" using run by simp
    then show thesis using refused row st bal by blast
  next
    case False
    have t: "T \<le> t" "t < T + window" using st by (simp_all add: steady_def t_def)
    have live: "live_value w1 t ?key = map_option fst (w_kv w ?key)"
      using bal t by (auto simp: live_value_def stored_balance_def w1_def split: option.splits)
    have cur: "lua_reads (case live_value w1 t ?key of None \<Rightarrow> dec_str ?left | Some s \<Rightarrow> s) v"
      using bal printable_reads [OF left(1)] left(2) unfolding live
      by (cases "w_kv w ?key") (auto simp: stored_balance_def split: prod.splits)
    have st1: "steady T w1" using st by (simp add: steady_def w1_def)
    have row1: "open_row w1 a c left" using row by (simp add: open_row_def w1_def)
    show thesis
    proof (cases rule: reserve_script_drift [OF cur printable_reads [OF x(1)] v x(2)])
      case (1 l)
      have "reserve a c x w = (Inr (False, Some (Dec l 0)), w1)" using run False 1 by simp
      moreover have "stored_balance w1 T a c left v" using bal by (simp add: stored_balance_def w1_def)
      ultimately show thesis using refused row1 st1 by (simp add: w1_def)
    next
      case (2 s l v')
      define w2 where "w2 = put_value ?key s (t + window) w1"
      have "reserve a c x w = (Inr (True, Some (Dec l 0)), w2)" using run False 2(1) by (simp add: w2_def)
      moreover have "stored_balance w2 T a c left v'"
        using 2(2) t by (simp add: stored_balance_def w2_def put_value_def)
      moreover have "steady T w2" and "open_row w2 a c left" and "w_db w2 = w_db w"
        using st1 row1 by (simp_all add: steady_def open_row_def w2_def put_value_def w1_def)
      ultimately show thesis using granted 2(3,4) False by simp
    qed
  qed
qed

definition granted_total :: "bool list \<Rightarrow> dec list \<Rightarrow> rat" where
  "granted_total oks xs = sum_list (map (\<lambda>(ok, x). if ok then dval x else 0) (zip oks xs))"

lemma granted_total_simps [simp]:
  "granted_total [] [] = 0"
  "granted_total (ok # oks) (x # xs) = (if ok then dval x else 0) + granted_total oks xs"
  by (simp_all add: granted_total_def)

lemma reserve_all_drift:
  assumes "\<forall>x \<in> set xs. printable x \<and> 0 < dval x"
    and "open_row w a c left" and "steady T w" and "stored_balance w T a c left v" and "0 \<le> v"
  shows "\<exists>oks w'. reserve_all a c xs w = (Inr oks, w') \<and> length oks = length xs \<and> w_db w' = w_db w
    \<and> granted_total oks xs \<le> v * (1 + drift) ^ length xs
    \<and> (\<forall>(ok, x) \<in> set (zip oks xs). ok \<longrightarrow> dval x \<le> left)"
  using assms
proof (induction xs arbitrary: w v)
  case Nil
  then show ?case by (simp add: ret_def)
next
  case (Cons x xs)
  have x: "printable x" "0 < dval x" and rest: "\<forall>x \<in> set xs. printable x \<and> 0 < dval x" using Cons.prems(1) by auto
  have grow: "1 \<le> 1 + drift" by (simp add: drift_def)
  show ?case
  proof (cases rule: reserve_drift [OF Cons.prems(2-5) x])
    case (1 r w1)
    from Cons.IH [OF rest 1(2-4) Cons.prems(5)] obtain oks w' where
      ih: "reserve_all a c xs w1 = (Inr oks, w')" "length oks = length xs" "w_db w' = w_db w1"
        "granted_total oks xs \<le> v * (1 + drift) ^ length xs" "\<forall>(ok, x) \<in> set (zip oks xs). ok \<longrightarrow> dval x \<le> left" by blast
    have "v * (1 + drift) ^ length xs \<le> v * (1 + drift) ^ length (x # xs)"
      using Cons.prems(5) grow by (intro mult_left_mono power_increasing) simp_all
    then show ?thesis using ih 1(1,5)
      by (intro exI [of _ "False # oks"] exI [of _ w']) (simp add: bindE_def ret_def)
  next
    case (2 r w1 v')
    from Cons.IH [OF rest 2(2-4,7)] obtain oks w' where
      ih: "reserve_all a c xs w1 = (Inr oks, w')" "length oks = length xs" "w_db w' = w_db w1"
        "granted_total oks xs \<le> v' * (1 + drift) ^ length xs" "\<forall>(ok, x) \<in> set (zip oks xs). ok \<longrightarrow> dval x \<le> left" by blast
    have "1 \<le> (1 + drift) ^ length xs" using grow by simp
    then have "dval x * 1 \<le> dval x * (1 + drift) ^ length xs" using x(2) by (intro mult_left_mono) simp_all
    then have "dval x + granted_total oks xs \<le> (dval x + v') * (1 + drift) ^ length xs"
      using ih(4) by (simp add: distrib_right)
    also have "\<dots> \<le> (v * (1 + drift)) * (1 + drift) ^ length xs"
      using 2(8) grow by (intro mult_right_mono) simp_all
    finally have "granted_total (True # oks) (x # xs) \<le> v * (1 + drift) ^ length (x # xs)" by (simp add: mult.assoc)
    then show ?thesis using ih 2(1,5,6)
      by (intro exI [of _ "True # oks"] exI [of _ w']) (simp add: bindE_def ret_def)
  qed
qed

subsection \<open>Property\<close>

text \<open>
  C15: However many reservations are made against one budget, of any amounts, within the time to live of
  the key and while the row does not change: none of them raises, each granted amount is at most
  what the row leaves, and together the granted amounts exceed the balance at the start by at
  most one part in \<open>10 ^ 13\<close> per reservation, in spite of the rounding of the script.
\<close>

theorem reservations_drift_bounded:
  assumes "\<forall>x \<in> set xs. printable x \<and> 0 < dval x"
    and "open_row w a c left" and "steady T w" and "stored_balance w T a c left v" and "0 \<le> v"
  shows "\<exists>oks w'. reserve_all a c xs w = (Inr oks, w') \<and> length oks = length xs \<and> w_db w' = w_db w
    \<and> granted_total oks xs \<le> v * (1 + drift) ^ length xs
    \<and> (\<forall>(ok, x) \<in> set (zip oks xs). ok \<longrightarrow> dval x \<le> left)"
  using assms by (rule reserve_all_drift)

lemma reservations_drift_bounded_witness:
  "\<exists>oks w'. reserve_all ''agent-1'' ''USD'' [Dec 605 (- 1), Dec 394 (- 1), Dec 1 (- 1)] still_world = (Inr oks, w')
     \<and> granted_total oks [Dec 605 (- 1), Dec 394 (- 1), Dec 1 (- 1)] \<le> 100 * (1 + drift) ^ 3"
proof -
  let ?xs = "[Dec 605 (- 1), Dec 394 (- 1), Dec 1 (- 1)]"
  have "find_row (is_budget ''agent-1'' ''USD'') (budgets (w_db still_world)) = Inr (Some sample_budget)"
    by code_simp
  moreover have "bu_limit_amount sample_budget - bu_consumed_amount sample_budget = Dec 100 0" by code_simp
  ultimately have row: "open_row still_world ''agent-1'' ''USD'' 100"
    by (auto simp: open_row_def sample_budget_def still_world_def sample_world_def printable_def
        dec_range_small dval_def pair_of_def sval_def)
  have bal: "stored_balance still_world 1700000000000000 ''agent-1'' ''USD'' 100 100"
    by (simp add: stored_balance_def still_world_def sample_world_def)
  have xs: "\<forall>x \<in> set ?xs. printable x \<and> 0 < dval x"
    by (simp add: printable_def dec_range_small dval_def pair_of_def sval_def power_int_minus)
  have len: "length ?xs = 3" by simp
  from reservations_drift_bounded [OF xs row still_budget(2) bal, unfolded len] show ?thesis by simp blast
qed

end
