(* ===== verification/Lua_Evaluation.thy ===== *)
theory Lua_Evaluation
  imports Lua_Script "HOL-Library.Code_Target_Numeral"
begin

text \<open>
  Runs of the reservation script, computed with binary numerals: what floating point does to
  fractions.
\<close>

text \<open>
  Reserving 1000.00 out of 1000.30 leaves the text 0.29999999999995 in the store, so that the
  remaining 0.30 can no longer be reserved: the script computes with binary floating point and
  prints 14 digits.  The number it answers is cut off to a whole one.
\<close>

theorem fraction_is_lost:
  "reserve_script None ''1000.30'' ''1000.00'' = Some (Some ''0.29999999999995'', 1, 0)
   \<and> reserve_script (Some ''0.29999999999995'') ''0.30'' ''0.30'' = Some (None, - 1, 0)"
proof
  show "reserve_script None ''1000.30'' ''1000.00'' = Some (Some ''0.29999999999995'', 1, 0)" by code_simp
  show "reserve_script (Some ''0.29999999999995'') ''0.30'' ''0.30'' = Some (None, - 1, 0)" by code_simp
qed

end
