(* ===== verification/Spec2Isabelle.thy ===== *)
theory Spec2Isabelle
  imports Service_Sessions Allowed_Execution Http_Service Reservation_Drift Lua_Evaluation
begin

text \<open>
  Marcel Arch: a governance control plane for agents.  An agent submits an execution intent; the
  policy engine decides whether to allow it, to deny it or to ask a human; a governor reserves
  and settles budgets; an interceptor runs the tool only behind an allowed decision; every step is
  recorded in a signed hash chain; an HTTP API registers agents, budgets and policies and
  resolves approval requests.

  Parts and theories.

  \<^item> \<open>Marcel_Prelude\<close>: Python exceptions as values (\<open>py_exn\<close>), effects that return or raise
    (\<open>bindE\<close>, \<open>raise\<close>, \<open>catchE\<close>), the relations an effect obeys (locale \<open>effect_relation\<close>),
    tables as lists of rows (\<open>find_row\<close> is \<open>scalar_one_or_none\<close> of a select).
  \<^item> \<open>Py_Text\<close>, \<open>Scaled_Numbers\<close>, \<open>Py_Decimal\<close>, \<open>Lua_Script\<close>, \<open>Py_Json\<close>, \<open>Py_Datetime\<close>: what the code
    uses of the languages.  Text is over the 256 code points of \<open>char\<close>; an upper case letter
    outside of them is the marker \<open>OutsideModel\<close>.  Decimals are coefficient and exponent with
    Python's 28 digits of precision, Lua numbers are doubles with \<open>%.14g\<close> as text, JSON values
    are printed as \<open>json.dumps\<close> prints them.
  \<^item> \<open>Store\<close>: the tables of \<open>models/database.py\<close>, sessions with commit and rollback, the Redis
    keys with expiry and the published messages, the clock, fresh identifiers.  Locale
    \<open>database_relation\<close>: what a transaction does to the committed database.
  \<^item> \<open>Schemas\<close> (\<open>schemas.py\<close>): field constraints and validators of every request and decision.
  \<^item> \<open>Governor\<close> (\<open>core/engine.py\<close>, \<open>TokenBucketGovernor\<close>): \<open>remaining\<close>, \<open>reserve\<close>, \<open>commit\<close>,
    \<open>release\<close>, \<open>reset\<close>.  \<open>Lua_Evaluation\<close> evaluates its script on sample texts; \<open>Reservation_Drift\<close>
    bounds the rounding of the script on amounts with a fraction.
  \<^item> \<open>Policy_Engine\<close> (\<open>core/engine.py\<close>, \<open>DeterministicPolicyEngine\<close>): \<open>evaluate\<close> and the matching
    of rules, on policy definitions of any JSON shape.
  \<^item> \<open>Audit_Trail\<close> (\<open>security/audit.py\<close>): \<open>append\<close>, \<open>verify_chain\<close>; locale \<open>hash_chain\<close>.
    \<open>Audit_Sessions\<close>: several sessions that append at the same time.
  \<^item> \<open>Service_Config\<close> (\<open>config.py\<close>, engine options), \<open>Auth\<close> (\<open>security/auth.py\<close>),
    \<open>Interceptor\<close> (\<open>core/interceptor.py\<close>), \<open>Router\<close> (\<open>api/router.py\<close>), \<open>Application\<close> (\<open>main.py\<close>:
    creation, start and shutdown).  \<open>Http_Service\<close>: the routes as values of \<open>request\<close>, each body
    validated by its schema and sent to its endpoint (\<open>dispatch\<close>), and the layers that \<open>create_app\<close> puts around them (\<open>serve\<close>).
  \<^item> \<open>Interceptor_Frame\<close>: the interceptor along any relation on databases (locale
    \<open>interceptor_relation\<close>), interpreted in \<open>Settlement\<close> (budgets are left alone) and in
    \<open>Service_Steps\<close>.  \<open>Allowed_Execution\<close>: the run that succeeds, from the decision
    to the charge.  \<open>Failures\<close>: which exceptions an operation can raise.
  \<^item> \<open>Service_Steps\<close>: the service as a step relation \<open>db_step\<close> on its database, one rule per change
    the code makes to a table, with the guard under which it makes it.
  \<^item> \<open>Service_Sessions\<close>: the transactions statement by statement.  Every session holds the row it has
    written and the audit entries it has added; sessions write, append, commit and roll back in
    any order, with or without row locks.
  \<^item> \<open>Samples\<close>: concrete values for the witnesses.

  What is shown.  The interceptor and any sequence of requests refine the step relation, on every
  path, also when they raise (\<open>execution_refines_steps\<close>, \<open>requests_refine_steps\<close>); so what holds along
  the steps holds for the service: distinct keys and budgets within their limits, an append-only
  log of linked, hashed and signed entries, settled requests that never change, approvals in time
  with a reviewer, consumption that is never undone.  Beside that: when a decision denies, and where an allowed
  answer comes from; that a tool runs only behind one; what a whole run charges, and that an
  allowed one is carried out; that the reservations granted against a budget stay within the
  balance; that two verifying logs with the same last hash record the same events, and that no
  interleaving of appends forks the log; that under row locks every interleaving of transactions
  amounts to steps one after the other (\<open>interleavings_serialise\<close>), and that without them, as on
  SQLite, a charge can be lost; that the canonical text identifies a JSON value; the life of a
  token; which status codes the router answers; when the connections are closed; that waiting
  ends.  Some theorems state behaviour that surprises: they are named for it and listed as
  findings in the manifest.  The first of them is that, as \<open>main.py\<close> decorates the session
  middleware, no request reaches the router (\<open>every_request_fails\<close>); what is shown of requests
  otherwise is about the router behind it (\<open>routed\<close>).

  Bounds and fuel.  The polling loop runs over the turns that a schedule lists, because messages and
  other sessions are not under the control of the code; \<open>None\<close> is a run that is still waiting, and
  \<open>waiting_ends\<close> shows that a schedule with a turn at the deadline is long enough.  No other
  definition needs fuel.  Reservations are followed inside one time to live of the Redis key
  (86400 s).  Amounts have at most 28 digits: the schema library normalises longer ones with rounding,
  which is not modelled (\<open>amount_field\<close> gives \<open>OutsideModel\<close>).  Numbers of audit entries and versions of
  budgets count up from one and are taken to stay below \<open>2 ^ 31\<close>, the range of their columns; the
  version of a policy comes from the client and is checked (\<open>integer_column\<close>).  Lua doubles have 53
  bits and an unbounded exponent, whose range amounts of the columns never leave.  For balances below
  \<open>10 ^ 14\<close>, the range of the column, whole amounts are exact doubles and the granted sum stays within
  the balance; for any other amounts it stays within the balance up to the factor \<open>1 + 1 / 10 ^ 13\<close> per reservation (14 printed digits, doubles of 53 bits).

  Parameters.  SHA-256, HMAC and what a column of type \<open>DateTime\<close> or \<open>JSON\<close> gives back for a value
  (\<open>platform\<close>), the JWT library (\<open>jwt_library\<close>, with the contract \<open>jwt_contract\<close>), the scheme of a
  URL, the operations of the connections at the start and the shutdown (\<open>connections\<close>), the web
  framework (\<open>framework\<close>, with its documented behaviour \<open>as_documented\<close>).  The audit and approval rows pass through the column
  functions; the time stamps of agents, budgets and policies, which no theorem reads, are kept as
  written.  That the log verifies needs columns that give back zoned times and JSON values without
  floats (\<open>zoned_columns\<close>, as on PostgreSQL; SQLite drops the zone, \<open>naive_times_break_chain\<close>); what
  was written is followed without that (\<open>logged\<close>).  A \<open>Numeric\<close> column gives back a decimal of the same value.

  Not modelled.  The operations run a transaction from its begin to its end without a break, except
  that other sessions may commit between the lookup and the insert of an approval request;
  \<open>Service_Sessions\<close> has the interleavings of what transactions write (reads that lead to no write are not
  followed there, and a unique constraint is checked at the commit).  The delivery of Redis
  messages (only that a turn saw one) and connection failures are left out.  Of the HTTP layer the
  reading of JSON, headers and field types and the printing of responses are the framework's; the log lines are left
  out.  What the environment holds, the answers to the probes of \<open>GET /v1/health\<close> and the
  deployment files are the libraries' and the platform's.
  \<open>core/engine.py\<close> and \<open>security/audit.py\<close> end in a damaged second copy of their text (from
  lines 258 and 119 on), which is not modelled.
\<close>

subsection \<open>The service as a whole\<close>

text \<open>
  C1: Refinement: running an intercepted tool, from evaluation over waiting to settlement, takes the
  committed database along admissible steps only, whether it returns or raises, when the
  other sessions and the tool do the same.
\<close>

theorem execution_refines_steps:
  assumes "amount_checked i" and "others_ok S sched" and "tool_ok S tool"
  shows "db_steps S (w_db w) (w_db (snd (execute_tool S sched i a tool w)))"
  using steps.outer_db [OF steps_execute_tool [OF assms]] .

lemma sample_intent_checked: "amount_checked (sample_intent (Dec 20 0))"
proof -
  have "amount_field (Dec 20 0) = Inr (Dec 20 0)" by code_simp
  then show ?thesis by (simp add: amount_checked_def sample_intent_def)
qed

lemma sample_schedule_ok: "others_ok S sample_schedule"
  by (simp add: others_along_def sample_schedule_def idle_poll_def)

lemma execution_refines_steps_witness:
  "db_steps sample_service sample_database
     (w_db (snd (execute_tool sample_service sample_schedule (sample_intent (Dec 20 0)) ''alice''
        (\<lambda>w. (Inr (), w)) sample_world)))"
  using execution_refines_steps [OF sample_intent_checked sample_schedule_ok, of sample_service "\<lambda>w. (Inr (), w)" sample_world]
  by (simp add: tool_ok_def)

text \<open>
  Refinement: every endpoint takes the committed database along admissible steps only, with any
  credentials and bodies whose limit passed its validation.
\<close>

theorem endpoints_refine_steps:
  assumes "others_ok S sched" and "amount_field (bp_limit_amount budget_body) = Inr (bp_limit_amount budget_body)"
  shows "db_steps S (w_db w) (w_db (snd (register_agent J S cr agent_body w)))
    \<and> db_steps S (w_db w) (w_db (snd (upsert_budget J S cr agent_id budget_body w)))
    \<and> db_steps S (w_db w) (w_db (snd (create_policy J S cr policy_body w)))
    \<and> db_steps S (w_db w) (w_db (snd (evaluate_intent J S sched cr i w)))
    \<and> db_steps S (w_db w) (w_db (snd (get_hitl J S cr tid w)))
    \<and> db_steps S (w_db w) (w_db (snd (resolve_hitl J S cr tid resolution w)))"
  using assms
  by (intro conjI steps.outer_db steps_register_agent steps_upsert_budget steps_create_policy
      steps_evaluate_intent steps_get_hitl steps_resolve_hitl)

lemma endpoints_refine_steps_witness:
  "db_steps sample_service sample_database
     (w_db (snd (upsert_budget sample_jwt sample_service None ''agent-1'' sample_upsert sample_world)))"
proof -
  have "amount_field (bp_limit_amount sample_upsert) = Inr (bp_limit_amount sample_upsert)" by code_simp
  from endpoints_refine_steps [OF sample_schedule_ok this, of sample_service sample_world sample_jwt None] show ?thesis by simp
qed

text \<open>
  C7: Invariant: in every database the service can reach from the empty one, the keys of the
  tables are distinct, and every budget has a limit and a consumed amount that the columns can
  hold, with the consumed amount between zero and the limit.
\<close>

theorem reachable_tables_ok:
  assumes "db_steps S empty_database d"
  shows "tables_ok d"
  using steps_invariant [of S tables_ok, OF _ assms tables_ok_empty] step_tables_ok by blast

lemma sample_reachable:
  "db_steps S empty_database (empty_database\<lparr>agents := [stored_agent (sv_platform S) sample_agent]\<rparr>)"
  using agent_registered [of sample_agent empty_database S] by (auto simp: agent_clash_def empty_database_def)

lemma reachable_tables_ok_witness:
  "tables_ok (empty_database\<lparr>agents := [stored_agent sample_platform sample_agent]\<rparr>)"
  using reachable_tables_ok [OF sample_reachable [of sample_service]] by (simp add: sample_service_def)

text \<open>
  Safety: no run of the interceptor, whatever the tool and the others do within the admissible
  steps, takes a database whose budgets are within their caps to one where they are not.
\<close>

theorem execution_keeps_caps:
  assumes "amount_checked i" and "others_ok S sched" and "tool_ok S tool" and "budgets_ok (w_db w)"
  shows "budgets_ok (w_db (snd (execute_tool S sched i a tool w)))"
  using steps_budgets_ok [OF steps.outer_db [OF steps_execute_tool [OF assms(1-3)]] assms(4)] .

lemma execution_keeps_caps_witness:
  "budgets_ok (w_db (snd (execute_tool sample_service sample_schedule (sample_intent (Dec 20 0)) ''alice''
        (\<lambda>w. (Inr (), w)) sample_world)))"
  using execution_keeps_caps [OF sample_intent_checked sample_schedule_ok, of sample_service "\<lambda>w. (Inr (), w)" sample_world]
    sample_budget_table
  by (simp add: tool_ok_def)



text \<open>
  The audit log is append-only: along any steps of the service the old log is the beginning of
  the new one.
\<close>

theorem audit_append_only:
  assumes "db_steps S d e"
  shows "prefix (audit_logs d) (audit_logs e)"
  using assms by (rule steps_audit_prefix)

lemma audit_append_only_witness:
  "prefix (audit_logs empty_database)
     (audit_logs (empty_database\<lparr>agents := [stored_agent sample_platform sample_agent]\<rparr>))"
  using audit_append_only [OF sample_reachable [of sample_service]] by (simp add: sample_service_def)

text \<open>
  C13: An approval request that is approved, rejected, expired or cancelled never changes again,
  along any steps of the service.
\<close>

theorem settled_request_is_final:
  assumes "db_steps S d e" and "t \<in> set (hitl_transactions d)" and "hi_status t \<noteq> PENDING"
  shows "t \<in> set (hitl_transactions e)"
  using assms by (rule steps_settled)

lemma settled_request_is_final_witness:
  "sample_hitl REJECTED \<in> set (hitl_transactions
     ((w_db (hitl_world REJECTED))\<lparr>agents := agents sample_database
        @ [stored_agent sample_platform (sample_agent\<lparr>ag_id := ''agent-2''\<rparr>)]\<rparr>))"
proof -
  let ?d = "w_db (hitl_world REJECTED)" and ?a = "sample_agent\<lparr>ag_id := ''agent-2''\<rparr>"
  have "db_step sample_service ?d (?d\<lparr>agents := agents ?d @ [stored_agent (sv_platform sample_service) ?a]\<rparr>)"
    by (rule agent_registered)
      (simp add: agent_clash_def hitl_world_def sample_database_def sample_agent_def)
  from settled_request_is_final [OF db_stepsI [OF this], of "sample_hitl REJECTED"]
  show ?thesis by (simp add: hitl_world_def sample_service_def)
qed

text \<open>
  C22: In every database the service can reach from the empty one, an approved or rejected request
  names its reviewer and was resolved before it expired, when the store gives back the times.
\<close>

theorem approvals_in_time:
  assumes "db_steps S empty_database d" and "\<forall>t. stored_time (sv_platform S) t = t"
    and "t \<in> set (hitl_transactions d)"
  shows "reviewed_in_time t"
proof -
  have "\<forall>t \<in> set (hitl_transactions d). reviewed_in_time t"
    by (rule steps_invariant [of S "\<lambda>d. \<forall>t \<in> set (hitl_transactions d). reviewed_in_time t", OF _ assms(1)])
      (use step_reviewed assms(2) in \<open>auto simp: empty_database_def\<close>)
  then show ?thesis using assms(3) by blast
qed

definition sample_approval :: hitl_resolution where
  "sample_approval = \<lparr>hr_decision = ''approved'', hr_comment = None\<rparr>"

lemma approvals_in_time_witness:
  "reviewed_in_time (resolved sample_approval ''bob'' (plus_seconds sample_time 5) (sample_hitl PENDING))"
proof -
  let ?t = "sample_hitl PENDING" and ?d = "empty_database\<lparr>hitl_transactions := [sample_hitl PENDING]\<rparr>"
  have t: "stored_hitl sample_platform ?t = ?t"
    by (simp add: stored_hitl_def sample_platform_def sample_hitl_def new_hitl_def)
  have 1: "db_step sample_service empty_database
      (empty_database\<lparr>hitl_transactions := hitl_transactions empty_database @ [stored_hitl (sv_platform sample_service) ?t]\<rparr>)"
    by (rule hitl_requested) (simp_all add: hitl_clash_def empty_database_def)
  have find: "find_by_id ''hitl-1'' ?d = Inr (Some ?t)"
    by (simp add: find_by_id_def find_row_def scalar_one_or_none_def)
  have le: "datetime_le (hi_expires_at ?t) (plus_seconds sample_time 5) = Inr False"
    by (simp add: datetime_le_def sample_hitl_def new_hitl_def plus_seconds_def sample_time_def sample_settings_def)
  have 2: "db_step sample_service ?d (update_hitl ''hitl-1''
      (resolved sample_approval ''bob'' (stored_time (sv_platform sample_service) (plus_seconds sample_time 5))) ?d)"
    by (rule hitl_resolved [OF find _ le]) simp
  have "db_steps sample_service empty_database (update_hitl ''hitl-1''
      (resolved sample_approval ''bob'' (plus_seconds sample_time 5)) ?d)"
    using 1 2 t by (simp add: sample_service_def sample_platform_def empty_database_def)
  then show ?thesis
    by (rule approvals_in_time)
      (simp_all add: sample_service_def sample_platform_def update_rows_def)
qed

text \<open>
  Along any steps of the service a budget stays, and its consumed amount and its version never
  go down; only the limit is ever lowered, never below what was consumed.
\<close>

theorem consumption_never_undone:
  assumes "db_steps S d e" and "budgets_ok d" and "b \<in> set (budgets d)"
  shows "budgets_ok e \<and> (\<exists>b' \<in> set (budgets e). bu_agent_id b' = bu_agent_id b \<and> bu_currency b' = bu_currency b
    \<and> dval (bu_consumed_amount b) \<le> dval (bu_consumed_amount b') \<and> bu_version b \<le> bu_version b')"
  using steps_budgets_ok [OF assms(1,2)] steps_budget_kept [OF assms] by (simp add: budget_kept_def)

lemma consumption_never_undone_witness:
  "budgets_ok (sample_database\<lparr>budgets := [set_limit sample_upsert sample_time sample_budget]\<rparr>)"
proof -
  have find: "find_row (is_budget ''agent-1'' ''USD'') (budgets sample_database) = Inr (Some sample_budget)" by code_simp
  have amt: "amount_field (bp_limit_amount sample_upsert) = Inr (bp_limit_amount sample_upsert)" by code_simp
  have "\<not> bp_limit_amount sample_upsert < bu_consumed_amount sample_budget" by code_simp
  from db_stepsI [OF limit_set [OF find amt this, of sample_service sample_time]]
  have "db_steps sample_service sample_database (sample_database\<lparr>budgets := [set_limit sample_upsert sample_time sample_budget]\<rparr>)"
    by (simp add: sample_database_def update_rows_def)
  from consumption_never_undone [OF this sample_budget_table, of sample_budget] show ?thesis
    by (simp add: sample_database_def)
qed

text \<open>
  C12: Nothing is answered before it is logged: when evaluating an intent gives any answer, the log
  has grown right behind its old end by the entry of this evaluation, with the intent, the
  decision of the engine and the actor.
\<close>

theorem decision_is_logged_first:
  assumes "others_ok S sched" and "evaluate_or_wait S sched i a w = (Inr x, w')"
  shows "\<exists>d v. evaluate i (w\<lparr>w_base := w_db w, w_session_ok := True\<rparr>) = (Inr d, v)
    \<and> prefix (audit_logs (w_db w) @ [stored_entry (sv_platform S)
         (next_entry (sv_platform S) (audit_hmac_key (sv_settings S)) ''execution_intent_evaluated'' a
           (JObj [(''intent'', intent_json i), (''decision'', decision_json d)]) v)]) (audit_logs (w_db w'))"
  using assms by (rule evaluation_logged)

lemma decision_is_logged_first_witness:
  "\<exists>d w'. evaluate_or_wait sample_service sample_schedule sample_plain ''alice'' sample_world = (Inr (Some d), w')
     \<and> audit_logs (w_db w') \<noteq> []"
proof -
  obtain w' where run: "evaluate_or_wait sample_service sample_schedule sample_plain ''alice'' sample_world
      = (Inr (Some sample_plain_allow), w')"
    using sample_immediate [OF sample_plain_run]
    by (auto simp: sample_plain_def sample_plain_allow_def sample_allow_def)
  have "audit_logs (w_db w') \<noteq> []"
    using decision_is_logged_first [OF sample_schedule_ok run] by auto
  with run show ?thesis by blast
qed

subsection \<open>The endpoints\<close>

lemma role_check_fails:
  assumes "\<forall>roles. \<exists>v. require_role J s roles cr w = (Inl e, v)"
  shows "fst (bindE (require_role J s roles cr) f w) = Inl e"
proof -
  obtain v where "require_role J s roles cr w = (Inl e, v)" using assms by blast
  then show ?thesis by (simp add: bindE_def)
qed

lemma role_check_frame:
  assumes "\<forall>roles. \<exists>v. require_role J s roles cr w = (Inl e, v)"
  shows "w_db (snd (bindE (require_role J s roles cr) f w)) = w_db w"
proof -
  obtain v where v: "require_role J s roles cr w = (Inl e, v)" using assms by blast
  then show ?thesis using same_sessionD(1) [OF quiet_require_role v] by (simp add: bindE_def)
qed

text \<open>
  A request whose credentials do not pass the role check gets the error of the check from every
  endpoint that changes the database, and changes nothing.
\<close>

theorem unauthorised_changes_nothing:
  assumes "\<forall>roles. \<exists>v. require_role J (sv_settings S) roles cr w = (Inl e, v)"
  shows "fst (register_agent J S cr b1 w) = Inl e \<and> w_db (snd (register_agent J S cr b1 w)) = w_db w
    \<and> fst (upsert_budget J S cr a b2 w) = Inl e \<and> w_db (snd (upsert_budget J S cr a b2 w)) = w_db w
    \<and> fst (create_policy J S cr b3 w) = Inl e \<and> w_db (snd (create_policy J S cr b3 w)) = w_db w
    \<and> fst (resolve_hitl J S cr t b4 w) = Inl e \<and> w_db (snd (resolve_hitl J S cr t b4 w)) = w_db w"
  unfolding register_agent_def upsert_budget_def create_policy_def resolve_hitl_def
  by (intro conjI role_check_fails [OF assms] role_check_frame [OF assms])

lemma unauthorised_changes_nothing_witness:
  "fst (resolve_hitl sample_jwt sample_service None ''hitl-1'' sample_approval sample_world)
     = Inl (HTTPException 401 ''Bearer token required'')"
  using unauthorised_changes_nothing [of sample_jwt sample_service None sample_world "HTTPException 401 ''Bearer token required''"]
  by (simp add: require_role_def require_principal_def bindE_def raise_def)

text \<open>
  C23: A resolution that goes through found the request pending and not expired, and leaves it
  approved or rejected as asked, with the reviewer; the response shows the new status.
\<close>

theorem resolution_settles_request:
  assumes "resolution_transaction S tid payload reviewer now w = (Inr r, w')"
  shows "\<exists>t t'. find_by_id tid (w_db w) = Inr (Some t) \<and> hi_status t = PENDING
    \<and> datetime_le (hi_expires_at t) now = Inr False
    \<and> find_by_id tid (w_db w') = Inr (Some t')
    \<and> hi_status t' = (if hr_decision payload = ''approved'' then APPROVED else REJECTED)
    \<and> hi_reviewer_id t' = Some reviewer \<and> hi_agent_id t' = hi_agent_id t \<and> hi_action t' = hi_action t
    \<and> hp_status r = hitl_status_value (hi_status t')"
  using assms by (rule resolution_settles)

lemma resolution_settles_request_witness:
  "\<exists>r w' t'. resolution_transaction sample_service ''hitl-1'' sample_approval ''bob'' (plus_seconds sample_time 5) (hitl_world PENDING)
     = (Inr r, w') \<and> find_by_id ''hitl-1'' (w_db w') = Inr (Some t') \<and> hi_status t' = APPROVED"
proof -
  let ?now = "plus_seconds sample_time 5"
  let ?w = "(hitl_world PENDING)\<lparr>w_base := w_db (hitl_world PENDING), w_session_ok := True\<rparr>"
  let ?u = "update_hitl ''hitl-1'' (resolved sample_approval ''bob'' (stored_time (sv_platform sample_service) ?now))"
  have le: "datetime_le (hi_expires_at (sample_hitl PENDING)) ?now = Inr False"
    by (simp add: datetime_le_def sample_hitl_def new_hitl_def plus_seconds_def sample_time_def sample_settings_def)
  have "\<exists>q w'. audit_append sample_service ''hitl_resolved'' ''bob''
      (JObj [(''hitl_transaction_id'', JStr ''hitl-1''), (''decision'', JStr ''approved''), (''comment'', JNull)])
      (?w\<lparr>w_db := ?u (w_db ?w)\<rparr>) = (Inr q, w')"
    by (rule append_empty) (simp_all add: hitl_world_def)
  then obtain q w' where a: "audit_append sample_service ''hitl_resolved'' ''bob''
      (JObj [(''hitl_transaction_id'', JStr ''hitl-1''), (''decision'', JStr ''approved''), (''comment'', JNull)])
      (?w\<lparr>w_db := ?u (w_db ?w)\<rparr>) = (Inr q, w')" by blast
  have "\<exists>r. resolution_transaction sample_service ''hitl-1'' sample_approval ''bob'' ?now (hitl_world PENDING) = (Inr r, w')"
    unfolding resolution_transaction_def session_begin_Inr
    using a le by (simp add: execute_bind lift_bind)
      (simp add: bindE_def update_db_def modify_s_def ret_def opt_json_def sample_approval_def)
  then obtain r where run: "resolution_transaction sample_service ''hitl-1'' sample_approval ''bob'' ?now (hitl_world PENDING) = (Inr r, w')"
    by blast
  from resolution_settles_request [OF run] run show ?thesis by (auto simp: sample_approval_def)
qed

text \<open>
  C39: Resolving an expired request answers 409 and leaves the request pending: the update to
  expired that the endpoint makes is undone with its transaction.
\<close>

theorem late_resolution_leaves_pending:
  assumes "find_by_id tid (w_db w) = Inr (Some t)" and "hi_status t = PENDING"
    and "datetime_le (hi_expires_at t) now = Inr True"
  shows "\<exists>w'. resolution_transaction S tid payload reviewer now w
      = (Inl (HTTPException 409 ''HITL transaction has expired''), w') \<and> w_db w' = w_db w"
  using assms
  by (simp add: resolution_transaction_def session_begin_def execute_bind lift_bind)
    (simp add: bindE_def update_db_def modify_s_def raise_def)

lemma late_resolution_leaves_pending_witness:
  "\<exists>w'. resolution_transaction sample_service ''hitl-1'' sample_approval ''bob'' (plus_seconds sample_time 901) (hitl_world PENDING)
      = (Inl (HTTPException 409 ''HITL transaction has expired''), w')
    \<and> find_by_id ''hitl-1'' (w_db w') = Inr (Some (sample_hitl PENDING))"
proof -
  have "datetime_le (hi_expires_at (sample_hitl PENDING)) (plus_seconds sample_time 901) = Inr True"
    by (simp add: datetime_le_def sample_hitl_def new_hitl_def plus_seconds_def sample_time_def sample_settings_def)
  from late_resolution_leaves_pending [OF hitl_world_find(1) _ this] show ?thesis by fastforce
qed

end
